theory Spec2Isabelle
  imports Complex_Main "HOL-Library.Sublist" "HOL-Library.AList"
begin

text \<open>
  The YouTube player application, embedded in HOL: the identifier extractor and the
  playback record store of \<open>store/videoStore.ts\<close>, the validation of the input form
  (\<open>components/YouTubeForm.tsx\<close>), and the handlers of the home page, the video page
  and the GIF page that read and write the store. The platform underneath (regular
  expressions, JSON, \<open>localStorage\<close>, the objects of JavaScript) is modelled as far as
  the program uses it; each section says how.
\<close>

section \<open>JavaScript exceptions\<close>

text \<open>
  The exceptions that the platform operations used by the program can raise:
  \<open>TypeError\<close> (reading a property of \<open>undefined\<close>), \<open>SyntaxError\<close> (from
  \<open>JSON.parse\<close>), and the two storage exceptions \<open>SecurityError\<close> (storage access
  denied) and \<open>QuotaExceededError\<close> (a write the browser refuses). A function that can
  throw returns \<open>exn + 'a\<close>, with \<open>Inl\<close> the exception.
\<close>

datatype exn = TypeError | SyntaxError | SecurityError | QuotaExceededError

section \<open>Regular expressions\<close>

text \<open>
  The two regular expressions of the program are kept as data and run by a backtracking
  matcher that follows the ECMAScript semantics for the constructs they use: ordered
  alternation, greedy repetition (an iteration that consumes nothing is rejected),
  capture groups, the anchors \<open>^\<close> and \<open>$\<close> without the multiline flag, and \<open>.\<close>, which
  matches any character but a line terminator. Strings are lists of 8-bit characters, so
  the line terminators are line feed and carriage return.

  A matcher state is the index reached, the input left, and the captures made so far
  (the latest first). \<open>ms r st\<close> lists the states in which \<open>r\<close> can finish from \<open>st\<close>, in
  the order in which backtracking tries them: the head of the list is the match that the
  engine reports.
\<close>

datatype regex =
    RChar char
  | RAny
  | RSet "char list"
  | RNotSet "char list"
  | RBol
  | REol
  | REmpty
  | RSeq regex regex
  | RAlt regex regex
  | RStar regex
  | RGroup nat regex

type_synonym mstate = "nat \<times> string \<times> (nat \<times> string) list"

definition isLineTerminator :: "char \<Rightarrow> bool" where
  "isLineTerminator c = (c = CHR 0x0A \<or> c = CHR 0x0D)"

fun ms :: "regex \<Rightarrow> mstate \<Rightarrow> mstate list" where
  "ms (RChar c) (p, s, cs) =
     (case s of [] \<Rightarrow> [] | x # xs \<Rightarrow> if x = c then [(Suc p, xs, cs)] else [])"
| "ms RAny (p, s, cs) =
     (case s of [] \<Rightarrow> [] | x # xs \<Rightarrow> if isLineTerminator x then [] else [(Suc p, xs, cs)])"
| "ms (RSet A) (p, s, cs) =
     (case s of [] \<Rightarrow> [] | x # xs \<Rightarrow> if x \<in> set A then [(Suc p, xs, cs)] else [])"
| "ms (RNotSet A) (p, s, cs) =
     (case s of [] \<Rightarrow> [] | x # xs \<Rightarrow> if x \<in> set A then [] else [(Suc p, xs, cs)])"
| "ms RBol (p, s, cs) = (if p = 0 then [(p, s, cs)] else [])"
| "ms REol (p, s, cs) = (if s = [] then [(p, s, cs)] else [])"
| "ms REmpty (p, s, cs) = [(p, s, cs)]"
| "ms (RSeq a b) (p, s, cs) = concat (map (ms b) (ms a (p, s, cs)))"
| "ms (RAlt a b) (p, s, cs) = ms a (p, s, cs) @ ms b (p, s, cs)"
| "ms (RStar a) (p, s, cs) =
     concat (map (\<lambda>(p', s', cs'). if length s' < length s then ms (RStar a) (p', s', cs') else [])
                 (ms a (p, s, cs))) @ [(p, s, cs)]"
| "ms (RGroup n a) (p, s, cs) =
     map (\<lambda>(p', s', cs'). (p', s', (n, take (p' - p) s) # cs')) (ms a (p, s, cs))"

fun literal :: "string \<Rightarrow> regex" where
  "literal [] = REmpty"
| "literal (c # w) = RSeq (RChar c) (literal w)"

definition optional :: "regex \<Rightarrow> regex" where
  "optional r = RAlt r REmpty"

fun repeat :: "nat \<Rightarrow> regex \<Rightarrow> regex" where
  "repeat 0 r = REmpty"
| "repeat (Suc n) r = RSeq r (repeat n r)"

definition firstMatch :: "'a list \<Rightarrow> 'a option" where
  "firstMatch xs = (case xs of [] \<Rightarrow> None | x # _ \<Rightarrow> Some x)"

text \<open>
  \<open>regexp_exec\<close> is \<open>RegExp.prototype.exec\<close> for a regular expression without the global
  or sticky flag: the match is attempted at index 0, then 1, and so on to the end of
  the input, and the first success is the result (\<open>None\<close> is JavaScript's \<open>null\<close>).
  \<open>String.prototype.match\<close> returns the same result, \<open>regexp_test\<close> says whether there is
  one, and \<open>capture m n\<close> is \<open>m[n]\<close> (\<open>None\<close> is \<open>undefined\<close>).
\<close>

definition regexp_exec :: "regex \<Rightarrow> string \<Rightarrow> mstate option" where
  "regexp_exec r s =
     firstMatch (concat (map (\<lambda>i. ms r (i, drop i s, [])) [0..<Suc (length s)]))"

definition regexp_test :: "regex \<Rightarrow> string \<Rightarrow> bool" where
  "regexp_test r s = (regexp_exec r s \<noteq> None)"

definition capture :: "mstate \<Rightarrow> nat \<Rightarrow> string option" where
  "capture m n = map_of (snd (snd m)) n"

section \<open>The identifier extractor (store/videoStore.ts)\<close>

definition wordChars :: "char list" where
  "wordChars = ''abcdefghijklmnopqrstuvwxyzABCDEFGHIJKLMNOPQRSTUVWXYZ0123456789_''"

text \<open>The alternatives of the first group of \<open>regExp\<close>, in the order of the source.\<close>

definition markers :: regex where
  "markers =
     RAlt (literal ''youtu.be/'')
    (RAlt (literal ''v/'')
    (RAlt (RSeq (literal ''u/'') (RSeq (RSet wordChars) (RChar CHR ''/'')))
    (RAlt (literal ''embed/'')
    (RAlt (literal ''watch?v='')
          (literal ''&v='')))))"

text \<open>\<^verbatim>\<open>/^.*(youtu\.be\/|v\/|u\/\w\/|embed\/|watch\?v=|&v=)([^#&?]*).*/\<close>\<close>

definition regExp :: regex where
  "regExp =
     RSeq RBol
    (RSeq (RStar RAny)
    (RSeq (RGroup 1 markers)
    (RSeq (RGroup 2 (RStar (RNotSet ''#&?'')))
          (RStar RAny))))"

text \<open>
  \<^verbatim>\<open>const match = url.match(regExp);
  return match && match[2].length === 11 ? match[2] : "";\<close>
  Reading \<open>length\<close> of an undefined \<open>match[2]\<close> would throw a \<open>TypeError\<close>.
\<close>

definition getYouTubeIdFromUrl :: "string \<Rightarrow> exn + string" where
  "getYouTubeIdFromUrl url =
     (case regexp_exec regExp url of
        None \<Rightarrow> Inr []
      | Some match \<Rightarrow>
          (case capture match 2 of
             None \<Rightarrow> Inl TypeError
           | Some m2 \<Rightarrow> Inr (if length m2 = 11 then m2 else [])))"

section \<open>The input form (components/YouTubeForm.tsx)\<close>

definition idChars :: "char list" where
  "idChars = ''abcdefghijklmnopqrstuvwxyzABCDEFGHIJKLMNOPQRSTUVWXYZ0123456789_-''"

text \<open>
  \<^verbatim>\<open>/^(https?:\/\/)?(www\.)?(youtube\.com\/watch\?v=|youtu\.be\/)([a-zA-Z0-9_-]{11}).*$/\<close>
\<close>

definition YOUTUBE_URL_REGEX :: regex where
  "YOUTUBE_URL_REGEX =
     RSeq RBol
    (RSeq (optional (RGroup 1
             (RSeq (literal ''http'') (RSeq (optional (RChar CHR ''s'')) (literal ''://'')))))
    (RSeq (optional (RGroup 2 (literal ''www.'')))
    (RSeq (RGroup 3 (RAlt (literal ''youtube.com/watch?v='') (literal ''youtu.be/'')))
    (RSeq (RGroup 4 (repeat 11 (RSet idChars)))
    (RSeq (RStar RAny) REol)))))"


text \<open>
  \<^verbatim>\<open>if (!videoUrl.trim()) { setError(...); return; }
  if (!YOUTUBE_URL_REGEX.test(videoUrl)) { setError(...); return; }
  setError(""); onSave(videoUrl);\<close>
  The trimmed string is empty exactly when every character is white space. The result
  is \<open>Inl\<close> the validation message shown, or \<open>Inr\<close> the URL handed to \<open>onSave\<close>.
\<close>

definition isWhiteSpace :: "char \<Rightarrow> bool" where
  "isWhiteSpace c = (c \<in> set [CHR 0x09, CHR 0x0A, CHR 0x0B, CHR 0x0C, CHR 0x0D, CHR 0x20, CHR 0xA0])"

definition handleSubmit :: "string \<Rightarrow> string + string" where
  "handleSubmit videoUrl =
     (if list_all isWhiteSpace videoUrl then Inl ''Please enter a YouTube video URL.''
      else if \<not> regexp_test YOUTUBE_URL_REGEX videoUrl
        then Inl ''Please enter a valid YouTube video URL.''
      else Inr videoUrl)"

section \<open>JavaScript values\<close>

text \<open>
  The values that \<open>JSON.parse\<close> can return. Numbers are exact reals: rounding, \<open>NaN\<close> and
  the infinities are not represented. An object is the list of its own properties in
  property order, with distinct keys. \<open>None\<close> of type \<open>jsval option\<close> is \<open>undefined\<close>.
\<close>

datatype jsval =
    JNull
  | JBool bool
  | JNum real
  | JStr string
  | JArr "jsval list"
  | JObj "(string \<times> jsval) list"

fun truthy :: "jsval \<Rightarrow> bool" where
  "truthy JNull = False"
| "truthy (JBool b) = b"
| "truthy (JNum x) = (x \<noteq> 0)"
| "truthy (JStr s) = (s \<noteq> [])"
| "truthy (JArr xs) = True"
| "truthy (JObj kvs) = True"

fun truthyOpt :: "jsval option \<Rightarrow> bool" where
  "truthyOpt None = False"
| "truthyOpt (Some v) = truthy v"

text \<open>The decimal numeral of an array index, as a property key.\<close>

fun decimal :: "nat \<Rightarrow> string" where
  "decimal n =
     (if n < 10 then [char_of (48 + n)]
      else decimal (n div 10) @ [char_of (48 + n mod 10)])"

declare decimal.simps [simp del]

text \<open>
  The own enumerable properties that an object spread \<open>{...v}\<close> copies: the properties
  of an object, the indexed elements of an array, the indexed characters of a string,
  and nothing for \<open>null\<close>, a boolean or a number.
\<close>

fun ownProps :: "jsval \<Rightarrow> (string \<times> jsval) list" where
  "ownProps (JObj kvs) = kvs"
| "ownProps (JArr xs) = zip (map decimal [0..<length xs]) xs"
| "ownProps (JStr s) = zip (map decimal [0..<length s]) (map (\<lambda>c. JStr [c]) s)"
| "ownProps JNull = []"
| "ownProps (JBool b) = []"
| "ownProps (JNum x) = []"

text \<open>
  \<open>getProp v k\<close> is \<open>v.k\<close> for a key that no prototype defines (the three field names
  of the program): the own property, or \<open>undefined\<close>. On \<open>null\<close> it is the optional
  chain \<open>v?.k\<close>.
\<close>

definition getProp :: "jsval \<Rightarrow> string \<Rightarrow> jsval option" where
  "getProp v k = map_of (ownProps v) k"

text \<open>
  \<open>objectLiteral base props\<close> is the object literal \<open>{...b, k1: v1, ..., kn: vn}\<close> with
  \<open>base = ownProps b\<close> (or \<open>[]\<close> without a spread): each property is assigned in turn,
  replacing the value of a key already there and appending a new key. (JavaScript
  lists integer keys first; the keys that the program assigns are not integers.)
\<close>

definition objectLiteral :: "(string \<times> jsval) list \<Rightarrow> (string \<times> jsval) list \<Rightarrow> jsval" where
  "objectLiteral base props = JObj (foldl (\<lambda>obj (k, v). AList.update k v obj) base props)"

subsection \<open>The interface VideoData\<close>

record VideoData =
  originalUrl :: string
  lastKnownVideoTime :: real
  lastKnownSystemTime :: real

text \<open>The object that a value of the interface is at run time.\<close>

definition videoDataObj :: "VideoData \<Rightarrow> jsval" where
  "videoDataObj d =
     JObj [(''originalUrl'', JStr (originalUrl d)),
           (''lastKnownVideoTime'', JNum (lastKnownVideoTime d)),
           (''lastKnownSystemTime'', JNum (lastKnownSystemTime d))]"

section \<open>JSON and localStorage\<close>

text \<open>
  The program reads a stored string only through \<open>JSON.parse\<close>, so a stored string is
  represented by what \<open>JSON.parse\<close> makes of it: the value it denotes, or the fact that
  it is malformed (with its text). \<open>JSON.stringify\<close> of a value of type \<open>jsval\<close> (finite
  numbers, no \<open>undefined\<close>, no cycles) succeeds, and the text it writes denotes that value.
\<close>

datatype storedText = JsonText jsval | Malformed string

definition JSON_stringify :: "jsval \<Rightarrow> exn + storedText" where
  "JSON_stringify v = Inr (JsonText v)"

fun JSON_parse :: "storedText \<Rightarrow> exn + jsval" where
  "JSON_parse (JsonText v) = Inr v"
| "JSON_parse (Malformed s) = Inl SyntaxError"

text \<open>
  The browser's \<open>localStorage\<close>: the stored items, whether access to the storage is
  denied (every operation then throws \<open>SecurityError\<close>), and whether the quota is used up
  (\<open>setItem\<close> then throws \<open>QuotaExceededError\<close>).
\<close>

record localStorage =
  items :: "string \<rightharpoonup> storedText"
  accessDenied :: bool
  quotaExceeded :: bool

definition getItem :: "localStorage \<Rightarrow> string \<Rightarrow> exn + storedText option" where
  "getItem st k = (if accessDenied st then Inl SecurityError else Inr (items st k))"

definition setItem :: "localStorage \<Rightarrow> string \<Rightarrow> storedText \<Rightarrow> exn + localStorage" where
  "setItem st k v =
     (if accessDenied st then Inl SecurityError
      else if quotaExceeded st then Inl QuotaExceededError
      else Inr (st\<lparr>items := (items st)(k \<mapsto> v)\<rparr>))"

definition removeItem :: "localStorage \<Rightarrow> string \<Rightarrow> exn + localStorage" where
  "removeItem st k =
     (if accessDenied st then Inl SecurityError
      else Inr (st\<lparr>items := (items st)(k := None)\<rparr>))"

section \<open>The playback record store (store/videoStore.ts)\<close>

text \<open>
  \<^verbatim>\<open>if (!videoId) return;
  try { const jsonData = JSON.stringify(data); localStorage.setItem(videoId, jsonData); }
  catch (error) { console.error(...); }\<close>
\<close>

definition saveVideoData :: "localStorage \<Rightarrow> string \<Rightarrow> jsval \<Rightarrow> exn + localStorage" where
  "saveVideoData st videoId data =
     (if videoId = [] then Inr st
      else (case (case JSON_stringify data of
                    Inl e \<Rightarrow> Inl e
                  | Inr jsonData \<Rightarrow> setItem st videoId jsonData) of
              Inl error \<Rightarrow> Inr st
            | Inr st' \<Rightarrow> Inr st'))"

text \<open>
  \<^verbatim>\<open>if (!videoId) return null;
  try { const jsonData = localStorage.getItem(videoId);
        if (jsonData === null) { return null; }
        return JSON.parse(jsonData) as VideoData; }
  catch (error) { console.error(...); return null; }\<close>
  The cast \<open>as VideoData\<close> checks nothing at run time: the parsed value is returned as
  it is.
\<close>

definition getVideoData :: "localStorage \<Rightarrow> string \<Rightarrow> exn + jsval" where
  "getVideoData st videoId =
     (if videoId = [] then Inr JNull
      else (case (case getItem st videoId of
                    Inl e \<Rightarrow> Inl e
                  | Inr None \<Rightarrow> Inr JNull
                  | Inr (Some jsonData) \<Rightarrow> JSON_parse jsonData) of
              Inl error \<Rightarrow> Inr JNull
            | Inr v \<Rightarrow> Inr v))"

text \<open>
  \<^verbatim>\<open>if (!videoId) return;
  try { localStorage.removeItem(videoId); } catch (error) { console.error(...); }\<close>
\<close>

definition clearVideoData :: "localStorage \<Rightarrow> string \<Rightarrow> exn + localStorage" where
  "clearVideoData st videoId =
     (if videoId = [] then Inr st
      else (case removeItem st videoId of
              Inl error \<Rightarrow> Inr st
            | Inr st' \<Rightarrow> Inr st'))"

section \<open>The pages\<close>

text \<open>
  A handler takes the storage, the value of \<open>Date.now()\<close> at its call and its arguments,
  and returns the new storage with where it navigates. A page's React state is a
  record that the handler reads as last committed and returns updated.
\<close>

datatype navigation = ToHome | ToHomeWithUrl jsval | ToVideo string

subsection \<open>Home page: handleSaveUrl\<close>

definition handleSaveUrl ::
  "localStorage \<Rightarrow> int \<Rightarrow> string \<Rightarrow> exn + (localStorage \<times> navigation option)" where
  "handleSaveUrl st now url =
     (case getYouTubeIdFromUrl url of
        Inl e \<Rightarrow> Inl e
      | Inr videoId \<Rightarrow>
          if videoId = [] then Inr (st, None)
          else (case getVideoData st videoId of
                  Inl e \<Rightarrow> Inl e
                | Inr existingVideoData \<Rightarrow>
                    let videoDataToSave =
                          (if truthy existingVideoData
                           then objectLiteral (ownProps existingVideoData)
                                  [(''originalUrl'', JStr url),
                                   (''lastKnownSystemTime'', JNum (of_int now))]
                           else objectLiteral []
                                  [(''originalUrl'', JStr url),
                                   (''lastKnownVideoTime'', JNum 0),
                                   (''lastKnownSystemTime'', JNum (of_int now))])
                    in (case saveVideoData st videoId videoDataToSave of
                          Inl e \<Rightarrow> Inl e
                        | Inr st' \<Rightarrow> Inr (st', Some (ToVideo videoId)))))"

subsection \<open>GIF page: handleBackToVideo\<close>

text \<open>
  The sources hold two versions of the page. This is the one that touches the store;
  the one wrapped in a Suspense boundary only navigates. The argument is
  \<open>searchParams.get("youtubeID")\<close>.
\<close>

definition handleBackToVideo ::
  "localStorage \<Rightarrow> int \<Rightarrow> string option \<Rightarrow> exn + (localStorage \<times> navigation)" where
  "handleBackToVideo st now currentVideoId =
     (case currentVideoId of
        None \<Rightarrow> Inr (st, ToHome)
      | Some videoId \<Rightarrow>
          if videoId = [] then Inr (st, ToHome)
          else (case getVideoData st videoId of
                  Inl e \<Rightarrow> Inl e
                | Inr currentVideoData \<Rightarrow>
                    if truthy currentVideoData
                    then (case saveVideoData st videoId
                                 (objectLiteral (ownProps currentVideoData)
                                    [(''lastKnownSystemTime'', JNum (of_int now))]) of
                            Inl e \<Rightarrow> Inl e
                          | Inr st' \<Rightarrow> Inr (st', ToVideo videoId))
                    else Inr (st, ToVideo videoId)))"

subsection \<open>Video page\<close>

text \<open>
  The state of \<open>VideoPageContent\<close>. \<open>playerData\<close> is \<open>JNull\<close> for \<open>null\<close>.
  \<open>calculatedStartTime\<close> is \<open>None\<close> when the stored time fields were not both numbers:
  JavaScript then computes \<open>NaN\<close> or a string, which this model does not follow.
\<close>

record videoPage =
  currentVideoId :: "string option"
  playerData :: jsval
  calculatedStartTime :: "real option"
  isLoading :: bool
  currentTime :: real

definition initialVideoPage :: videoPage where
  "initialVideoPage =
     \<lparr>currentVideoId = None, playerData = JNull, calculatedStartTime = Some 0,
      isLoading = True, currentTime = 0\<rparr>"

text \<open>
  \<^verbatim>\<open>const elapsedSystemTimeSeconds = (Date.now() - videoDetails.lastKnownSystemTime) / 1000;
  const newStartTime = videoDetails.lastKnownVideoTime + elapsedSystemTimeSeconds;
  setCalculatedStartTime(newStartTime < 0 ? 0 : newStartTime);\<close>
\<close>

definition newStartTime :: "real \<Rightarrow> real \<Rightarrow> int \<Rightarrow> real" where
  "newStartTime lastVideoTime lastSystemTime now =
     (let elapsedSystemTimeSeconds = (of_int now - lastSystemTime) / 1000
      in lastVideoTime + elapsedSystemTimeSeconds)"

definition startTimeOf :: "jsval \<Rightarrow> int \<Rightarrow> real option" where
  "startTimeOf videoDetails now =
     (case (getProp videoDetails ''lastKnownVideoTime'',
            getProp videoDetails ''lastKnownSystemTime'') of
        (Some (JNum t), Some (JNum s)) \<Rightarrow>
          Some (if newStartTime t s now < 0 then 0 else newStartTime t s now)
      | _ \<Rightarrow> None)"

text \<open>
  The first effect of the page; the argument is \<open>searchParams.get("youtubeID")\<close>. The
  navigation returned is the \<open>router.replace("/")\<close> of the two early returns.
\<close>

definition mountEffect ::
  "localStorage \<Rightarrow> int \<Rightarrow> string option \<Rightarrow> videoPage \<Rightarrow> exn + (videoPage \<times> navigation option)" where
  "mountEffect st now videoIdFromParams v =
     (case videoIdFromParams of
        None \<Rightarrow> Inr (v, Some ToHome)
      | Some videoId \<Rightarrow>
          if videoId = [] then Inr (v, Some ToHome)
          else (case getVideoData st videoId of
                  Inl e \<Rightarrow> Inl e
                | Inr videoDetails \<Rightarrow>
                    if \<not> truthyOpt (getProp videoDetails ''originalUrl'')
                    then Inr (v\<lparr>currentVideoId := Some videoId\<rparr>, Some ToHome)
                    else Inr (v\<lparr>currentVideoId := Some videoId,
                                playerData := videoDetails,
                                calculatedStartTime := startTimeOf videoDetails now,
                                isLoading := False\<rparr>, None)))"

text \<open>
  \<^verbatim>\<open>if (playerData && currentVideoId && currentTime > 0) {
    const newData = { ...playerData, lastKnownVideoTime: currentTime,
                      lastKnownSystemTime: Date.now() };
    saveVideoData(currentVideoId, newData); }\<close>
  The handler is defined inside the second effect of the page, whose dependencies are
  \<open>[playerData, currentVideoId, currentTime]\<close>; it reads the state of the render in
  which the effect was set up, the argument \<open>v\<close>. It runs on \<open>beforeunload\<close> and in the
  cleanup of the effect: when the component unmounts, and before the effect is set up
  again after a render in which a dependency has changed (\<open>effectCleanup\<close> below).
\<close>

definition handleBeforeUnload :: "localStorage \<Rightarrow> int \<Rightarrow> videoPage \<Rightarrow> exn + localStorage" where
  "handleBeforeUnload st now v =
     (case currentVideoId v of
        None \<Rightarrow> Inr st
      | Some videoId \<Rightarrow>
          if truthy (playerData v) \<and> videoId \<noteq> [] \<and> currentTime v > 0
          then saveVideoData st videoId
                 (objectLiteral (ownProps (playerData v))
                    [(''lastKnownVideoTime'', JNum (currentTime v)),
                     (''lastKnownSystemTime'', JNum (of_int now))])
          else Inr st)"

text \<open>
  \<^verbatim>\<open>setCurrentTime(currentTimeSeconds);
  if (playerData && currentVideoId) {
    const newData = { ...playerData, lastKnownVideoTime: currentTimeSeconds,
                      lastKnownSystemTime: Date.now() };
    setPlayerData(newData); saveVideoData(currentVideoId, newData); }\<close>
\<close>

definition handleTimeUpdate ::
  "localStorage \<Rightarrow> int \<Rightarrow> real \<Rightarrow> videoPage \<Rightarrow> exn + (videoPage \<times> localStorage)" where
  "handleTimeUpdate st now currentTimeSeconds v =
     (case currentVideoId v of
        None \<Rightarrow> Inr (v\<lparr>currentTime := currentTimeSeconds\<rparr>, st)
      | Some videoId \<Rightarrow>
          if truthy (playerData v) \<and> videoId \<noteq> []
          then (let newData = objectLiteral (ownProps (playerData v))
                                [(''lastKnownVideoTime'', JNum currentTimeSeconds),
                                 (''lastKnownSystemTime'', JNum (of_int now))]
                in (case saveVideoData st videoId newData of
                      Inl e \<Rightarrow> Inl e
                    | Inr st' \<Rightarrow>
                        Inr (v\<lparr>currentTime := currentTimeSeconds, playerData := newData\<rparr>, st')))
          else Inr (v\<lparr>currentTime := currentTimeSeconds\<rparr>, st))"

text \<open>
  The same without \<open>setCurrentTime\<close>: the state \<open>currentTime\<close> is set by the periodic
  time report only.
\<close>

definition handlePlayerStateChange ::
  "localStorage \<Rightarrow> int \<Rightarrow> bool \<Rightarrow> real \<Rightarrow> videoPage \<Rightarrow> exn + (videoPage \<times> localStorage)" where
  "handlePlayerStateChange st now isPlaying currentTimeSeconds v =
     (case currentVideoId v of
        None \<Rightarrow> Inr (v, st)
      | Some videoId \<Rightarrow>
          if truthy (playerData v) \<and> videoId \<noteq> []
          then (let newData = objectLiteral (ownProps (playerData v))
                                [(''lastKnownVideoTime'', JNum currentTimeSeconds),
                                 (''lastKnownSystemTime'', JNum (of_int now))]
                in (case saveVideoData st videoId newData of
                      Inl e \<Rightarrow> Inl e
                    | Inr st' \<Rightarrow> Inr (v\<lparr>playerData := newData\<rparr>, st')))
          else Inr (v, st))"

text \<open>
  \<^verbatim>\<open>if (playerData?.originalUrl && currentVideoId) {
    saveVideoData(currentVideoId, { ...playerData, lastKnownSystemTime: Date.now() });
    router.push("/?url=" + encodeURIComponent(playerData.originalUrl));
  } else { router.push("/"); }\<close>
\<close>

definition refinedHandleEdit ::
  "localStorage \<Rightarrow> int \<Rightarrow> videoPage \<Rightarrow> exn + (localStorage \<times> navigation)" where
  "refinedHandleEdit st now v =
     (case (getProp (playerData v) ''originalUrl'', currentVideoId v) of
        (Some url, Some videoId) \<Rightarrow>
          if truthy url \<and> videoId \<noteq> []
          then (case saveVideoData st videoId
                       (objectLiteral (ownProps (playerData v))
                          [(''lastKnownSystemTime'', JNum (of_int now))]) of
                  Inl e \<Rightarrow> Inl e
                | Inr st' \<Rightarrow> Inr (st', ToHomeWithUrl url))
          else Inr (st, ToHome)
      | _ \<Rightarrow> Inr (st, ToHome))"

text \<open>
  The two callbacks call \<open>setPlayerData(newData)\<close> under the guard
  \<open>playerData && currentVideoId\<close>. The object \<open>newData\<close> is a new one at each call, so
  for React the dependency \<open>playerData\<close> has changed whenever the guard held, whatever
  the fields of the object are.
\<close>

definition setsPlayerData :: "videoPage \<Rightarrow> bool" where
  "setsPlayerData v =
     (case currentVideoId v of
        None \<Rightarrow> False
      | Some videoId \<Rightarrow> truthy (playerData v) \<and> videoId \<noteq> [])"

text \<open>
  Whether a callback that took the state \<open>v\<close> to \<open>v'\<close> changed one of the dependencies
  \<open>[playerData, currentVideoId, currentTime]\<close> of the second effect.
\<close>

definition dependenciesChanged :: "videoPage \<Rightarrow> videoPage \<Rightarrow> bool" where
  "dependenciesChanged v v' =
     (setsPlayerData v \<or> currentVideoId v' \<noteq> currentVideoId v \<or> currentTime v' \<noteq> currentTime v)"

text \<open>
  \<^verbatim>\<open>return () => { window.removeEventListener("beforeunload", handleBeforeUnload);
                 handleBeforeUnload(); };\<close>
  When the render after a callback is committed and a dependency has changed, React
  runs the cleanup of the effect of the previous render: \<open>handleBeforeUnload\<close> on the
  state \<open>v\<close> that this render had, on the storage as the callback left it, with the
  value \<open>committed\<close> of \<open>Date.now()\<close> at that moment.
\<close>

definition effectCleanup ::
  "localStorage \<Rightarrow> int \<Rightarrow> videoPage \<Rightarrow> videoPage \<Rightarrow> exn + localStorage" where
  "effectCleanup st committed v v' =
     (if dependenciesChanged v v' then handleBeforeUnload st committed v else Inr st)"

text \<open>
  The callbacks that the player component makes: the periodic time report and the state
  change. A callback comes with the value \<open>now\<close> of \<open>Date.now()\<close> at the call and the
  value \<open>committed\<close> at the commit of the render that follows it. The callbacks are
  those of the last render, and a render is committed before the next callback comes.
  Which sequences of callbacks the player component produces is not modelled: the
  properties below are stated for any sequence.
\<close>

datatype playerEvent = TimeUpdate real | PlayerStateChange bool real

fun callback ::
  "playerEvent \<Rightarrow> localStorage \<Rightarrow> int \<Rightarrow> videoPage \<Rightarrow> exn + (videoPage \<times> localStorage)" where
  "callback (TimeUpdate t) st now v = handleTimeUpdate st now t v"
| "callback (PlayerStateChange isPlaying t) st now v = handlePlayerStateChange st now isPlaying t v"

fun dispatch ::
  "int \<times> int \<times> playerEvent \<Rightarrow> videoPage \<times> localStorage \<Rightarrow> exn + (videoPage \<times> localStorage)" where
  "dispatch (now, committed, ev) (v, st) =
     (case callback ev st now v of
        Inl x \<Rightarrow> Inl x
      | Inr (v', st') \<Rightarrow>
          (case effectCleanup st' committed v v' of
             Inl x \<Rightarrow> Inl x
           | Inr st'' \<Rightarrow> Inr (v', st'')))"

fun runEvents ::
  "(int \<times> int \<times> playerEvent) list \<Rightarrow> videoPage \<times> localStorage \<Rightarrow> exn + (videoPage \<times> localStorage)" where
  "runEvents [] c = Inr c"
| "runEvents (e # es) c = (case dispatch e c of Inl x \<Rightarrow> Inl x | Inr c' \<Rightarrow> runEvents es c')"

section \<open>Notions used to state the properties\<close>

subsection \<open>Where the extractor finds its token\<close>

text \<open>
  \<open>markerLengths s\<close> lists the lengths of the alternatives of \<open>markers\<close> that match at
  the head of \<open>s\<close>, in the order of the alternatives. A token character is one that
  \<open>[^#&?]\<close> matches.
\<close>

definition markerLengths :: "string \<Rightarrow> nat list" where
  "markerLengths s =
     (if prefix ''youtu.be/'' s then [9] else []) @
     (if prefix ''v/'' s then [2] else []) @
     (if prefix ''u/'' s \<and>
         (case drop 2 s of w # c # _ \<Rightarrow> w \<in> set wordChars \<and> c = CHR ''/'' | _ \<Rightarrow> False)
      then [4] else []) @
     (if prefix ''embed/'' s then [6] else []) @
     (if prefix ''watch?v='' s then [8] else []) @
     (if prefix ''&v='' s then [3] else [])"

definition tokenChar :: "char \<Rightarrow> bool" where
  "tokenChar c = (c \<notin> set ''#&?'')"

definition tokenAfterMarker :: "string \<Rightarrow> string option" where
  "tokenAfterMarker s =
     (case markerLengths s of [] \<Rightarrow> None | k # _ \<Rightarrow> Some (takeWhile tokenChar (drop k s)))"

text \<open>
  The token after the last marker that no line terminator precedes, found by a scan
  from the right.
\<close>

fun lastMarkerToken :: "string \<Rightarrow> string option" where
  "lastMarkerToken [] = tokenAfterMarker []"
| "lastMarkerToken (x # xs) =
     (if isLineTerminator x then tokenAfterMarker (x # xs)
      else (case lastMarkerToken xs of
              Some t \<Rightarrow> Some t
            | None \<Rightarrow> tokenAfterMarker (x # xs)))"

text \<open>
  \<open>markerAt url i\<close>: a marker begins at index \<open>i\<close> of \<open>url\<close>. \<open>reachable url i\<close>: no line
  terminator stands before index \<open>i\<close>, so that \<open>^.*\<close> can reach it. \<open>tokenAt url i\<close>: the
  longest run of token characters after the marker at \<open>i\<close>. \<open>lastMarkerAt url i\<close>: the
  marker at \<open>i\<close> is the last reachable one.
\<close>

definition markerAt :: "string \<Rightarrow> nat \<Rightarrow> bool" where
  "markerAt url i = (i \<le> length url \<and> markerLengths (drop i url) \<noteq> [])"

definition reachable :: "string \<Rightarrow> nat \<Rightarrow> bool" where
  "reachable url i = (\<not> list_ex isLineTerminator (take i url))"

definition tokenAt :: "string \<Rightarrow> nat \<Rightarrow> string" where
  "tokenAt url i = (case tokenAfterMarker (drop i url) of None \<Rightarrow> [] | Some t \<Rightarrow> t)"

definition lastMarkerAt :: "string \<Rightarrow> nat \<Rightarrow> bool" where
  "lastMarkerAt url i =
     (markerAt url i \<and> reachable url i \<and>
      \<not> list_ex (\<lambda>j. markerAt url j \<and> reachable url j) [Suc i..<Suc (length url)])"

text \<open>
  An 11-character token stands after some marker of \<open>url\<close>, whichever marker it is.
\<close>

definition tokenOccurs :: "string \<Rightarrow> bool" where
  "tokenOccurs url =
     list_ex (\<lambda>i. markerAt url i \<and> length (tokenAt url i) = 11) [0..<Suc (length url)]"

text \<open>A video identifier: 11 characters of the class of \<open>YOUTUBE_URL_REGEX\<close>.\<close>

definition isVideoId :: "string \<Rightarrow> bool" where
  "isVideoId ident = (length ident = 11 \<and> list_all (\<lambda>c. c \<in> set idChars) ident)"

text \<open>No marker begins anywhere in \<open>s\<close>.\<close>

definition markerFree :: "string \<Rightarrow> bool" where
  "markerFree s = (\<not> list_ex (markerAt s) [0..<Suc (length s)])"

text \<open>
  What \<open>YOUTUBE_URL_REGEX\<close> accepts before the identifier: an optional scheme, an
  optional \<open>www.\<close>, and one of the two hosts with its path.
\<close>

definition formPrefixes :: "string list" where
  "formPrefixes =
     concat (map (\<lambda>scheme. concat (map (\<lambda>www. map (\<lambda>host. scheme @ www @ host)
               [''youtube.com/watch?v='', ''youtu.be/''])
               [''www.'', []]))
               [''http://'', ''https://'', []])"

subsection \<open>What the storage holds\<close>

definition available :: "localStorage \<Rightarrow> bool" where
  "available st = (\<not> accessDenied st \<and> \<not> quotaExceeded st)"

text \<open>The property \<open>k\<close> of the value stored under \<open>videoId\<close>, if it is well-formed JSON.\<close>

definition storedProp :: "localStorage \<Rightarrow> string \<Rightarrow> string \<Rightarrow> jsval option" where
  "storedProp st videoId k =
     (case items st videoId of
        Some (JsonText v) \<Rightarrow> getProp v k
      | _ \<Rightarrow> None)"

text \<open>The storage after the record \<open>r\<close> has been written under \<open>videoId\<close>.\<close>

definition withRecord :: "localStorage \<Rightarrow> string \<Rightarrow> VideoData \<Rightarrow> localStorage" where
  "withRecord st videoId r = st\<lparr>items := (items st)(videoId \<mapsto> JsonText (videoDataObj r))\<rparr>"

text \<open>The time of the last periodic report among the callbacks, if there was one.\<close>

fun lastTimeUpdate :: "(int \<times> int \<times> playerEvent) list \<Rightarrow> real option" where
  "lastTimeUpdate [] = None"
| "lastTimeUpdate ((now, committed, TimeUpdate t) # es) =
     (case lastTimeUpdate es of None \<Rightarrow> Some t | Some t' \<Rightarrow> Some t')"
| "lastTimeUpdate ((now, committed, PlayerStateChange isPlaying t) # es) = lastTimeUpdate es"

subsection \<open>Parts of the two expressions\<close>

definition idTail :: regex where
  "idTail = RSeq (RGroup 2 (RStar (RNotSet ''#&?''))) (RStar RAny)"

definition idSearch :: regex where
  "idSearch = RSeq (RStar RAny) (RSeq (RGroup 1 markers) idTail)"

definition formTail :: regex where
  "formTail = RSeq (RGroup 4 (repeat 11 (RSet idChars))) (RSeq (RStar RAny) REol)"

definition formHost :: regex where
  "formHost =
     RSeq (RGroup 3 (RAlt (literal ''youtube.com/watch?v='') (literal ''youtu.be/''))) formTail"

definition formWww :: regex where
  "formWww = RSeq (optional (RGroup 2 (literal ''www.''))) formHost"

definition formScheme :: regex where
  "formScheme =
     RSeq (optional (RGroup 1
             (RSeq (literal ''http'') (RSeq (optional (RChar CHR ''s'')) (literal ''://'')))))
          formWww"

text \<open>The input a matcher state has left, and what \<open>formTail\<close> accepts.\<close>

definition remaining :: "mstate \<Rightarrow> string" where
  "remaining st = fst (snd st)"

definition okTail :: "string \<Rightarrow> bool" where
  "okTail s =
     (11 \<le> length s \<and> list_all (\<lambda>c. c \<in> set idChars) (take 11 s) \<and>
      \<not> list_ex isLineTerminator (drop 11 s))"

subsection \<open>Examples\<close>

definition exampleId :: string where
  "exampleId = ''dQw4w9WgXcQ''"

definition exampleRecord :: VideoData where
  "exampleRecord =
     \<lparr>originalUrl = ''https://youtu.be/dQw4w9WgXcQ'', lastKnownVideoTime = 100,
      lastKnownSystemTime = 10000\<rparr>"

definition emptyStorage :: localStorage where
  "emptyStorage = \<lparr>items = Map.empty, accessDenied = False, quotaExceeded = False\<rparr>"

definition exampleStorage :: localStorage where
  "exampleStorage = withRecord emptyStorage exampleId exampleRecord"

text \<open>A record whose time fields were overwritten by hand; the text is well-formed JSON.\<close>

definition damagedRecord :: jsval where
  "damagedRecord =
     JObj [(''originalUrl'', JStr ''https://youtu.be/dQw4w9WgXcQ''),
           (''lastKnownVideoTime'', JStr ''soon''),
           (''lastKnownSystemTime'', JNull)]"

definition damagedStorage :: localStorage where
  "damagedStorage = emptyStorage\<lparr>items := [exampleId \<mapsto> JsonText damagedRecord]\<rparr>"

text \<open>The video page after its first effect has loaded the example record.\<close>

definition examplePage :: videoPage where
  "examplePage =
     \<lparr>currentVideoId = Some exampleId, playerData = videoDataObj exampleRecord,
      calculatedStartTime = Some 100, isLoading = False, currentTime = 0\<rparr>"

text \<open>
  The video page and the storage after two periodic reports, of 45 at 20000 and of 46
  at 21000, each committed a millisecond later. The state holds the second report; the
  storage holds the first one with the time of the second commit, written by the
  cleanup of the second effect.
\<close>

definition laterPage :: videoPage where
  "laterPage =
     examplePage\<lparr>currentTime := 46,
       playerData := videoDataObj (exampleRecord\<lparr>lastKnownVideoTime := 46, lastKnownSystemTime := 21000\<rparr>)\<rparr>"

definition laterStorage :: localStorage where
  "laterStorage =
     withRecord exampleStorage exampleId
       (exampleRecord\<lparr>lastKnownVideoTime := 45, lastKnownSystemTime := 21001\<rparr>)"

section \<open>The matcher on the constructs of the two expressions\<close>

lemma firstMatch_Nil [simp]: "firstMatch [] = None"
  by (simp add: firstMatch_def)

lemma firstMatch_Cons [simp]: "firstMatch (x # xs) = Some x"
  by (simp add: firstMatch_def)

lemma firstMatch_append:
  "firstMatch (xs @ ys) = (case firstMatch xs of Some x \<Rightarrow> Some x | None \<Rightarrow> firstMatch ys)"
  by (cases xs) simp_all

lemma ms_literal:
  "ms (literal w) (p, s, cs) =
     (if prefix w s then [(p + length w, drop (length w) s, cs)] else [])"
proof (induction w arbitrary: p s)
  case Nil
  show ?case by simp
next
  case (Cons c w)
  show ?case
  proof (cases s)
    case Nil
    then show ?thesis by simp
  next
    case (Cons x xs)
    then show ?thesis using Cons.IH [of "Suc p" xs] by simp
  qed
qed

lemma ms_literal_map:
  "ms (literal w) (p, s, cs) =
     map (\<lambda>k. (p + k, drop k s, cs)) (if prefix w s then [length w] else [])"
  by (simp add: ms_literal)

lemma ms_set_char:
  "ms (RSeq (RSet A) (RChar c)) (p, s, cs) =
     (case s of w # d # t \<Rightarrow> if w \<in> set A \<and> d = c then [(p + 2, t, cs)] else [] | _ \<Rightarrow> [])"
  by (auto split: list.splits)

lemma ms_u_word_slash:
  "ms (RSeq (literal ''u/'') (RSeq (RSet A) (RChar c))) (p, s, cs) =
     map (\<lambda>k. (p + k, drop k s, cs))
       (if prefix ''u/'' s \<and> (case drop 2 s of w # d # _ \<Rightarrow> w \<in> set A \<and> d = c | _ \<Rightarrow> False)
        then [4] else [])"
proof -
  have "ms (RSeq (literal ''u/'') (RSeq (RSet A) (RChar c))) (p, s, cs) =
        concat (map (ms (RSeq (RSet A) (RChar c))) (ms (literal ''u/'') (p, s, cs)))"
    by (simp only: ms.simps)
  also have "\<dots> = (if prefix ''u/'' s
                    then ms (RSeq (RSet A) (RChar c)) (p + 2, drop 2 s, cs) else [])"
    by (simp add: ms_literal numeral_2_eq_2 del: ms.simps literal.simps)
  also have "\<dots> = map (\<lambda>k. (p + k, drop k s, cs))
       (if prefix ''u/'' s \<and> (case drop 2 s of w # d # _ \<Rightarrow> w \<in> set A \<and> d = c | _ \<Rightarrow> False)
        then [4] else [])"
    by (auto simp add: ms_set_char prefix_def simp del: ms.simps split: list.splits)
  finally show ?thesis .
qed

lemma marker_lengths:
  "length ''youtu.be/'' = 9" "length ''v/'' = 2" "length ''embed/'' = 6"
  "length ''watch?v='' = 8" "length ''&v='' = 3"
  by simp_all

lemma ms_markers:
  "ms markers (p, s, cs) = map (\<lambda>k. (p + k, drop k s, cs)) (markerLengths s)"
  unfolding markers_def markerLengths_def ms.simps(9) map_append ms_literal_map ms_u_word_slash
  by (simp only: marker_lengths)

lemma ms_star_notset_Cons:
  "ms (RStar (RNotSet A)) (p, x # xs, cs) =
     (if x \<in> set A then [] else ms (RStar (RNotSet A)) (Suc p, xs, cs)) @ [(p, x # xs, cs)]"
  by simp

lemma ms_star_notset:
  "\<exists>rest. ms (RStar (RNotSet A)) (p, s, cs) =
     (p + length (takeWhile (\<lambda>c. c \<notin> set A) s), dropWhile (\<lambda>c. c \<notin> set A) s, cs) # rest"
proof (induction s arbitrary: p)
  case Nil
  show ?case by simp
next
  case (Cons x xs)
  show ?case
  proof (cases "x \<in> set A")
    case True
    then show ?thesis by simp
  next
    case False
    from Cons.IH [of "Suc p"] obtain rest where
      "ms (RStar (RNotSet A)) (Suc p, xs, cs) =
         (Suc p + length (takeWhile (\<lambda>c. c \<notin> set A) xs), dropWhile (\<lambda>c. c \<notin> set A) xs, cs) # rest"
      by blast
    with False show ?thesis by (simp del: ms.simps add: ms_star_notset_Cons)
  qed
qed

lemma ms_star_any_Cons:
  "ms (RStar RAny) (p, x # xs, cs) =
     (if isLineTerminator x then [] else ms (RStar RAny) (Suc p, xs, cs)) @ [(p, x # xs, cs)]"
  by simp

lemma ms_star_any_Nil: "ms (RStar RAny) (p, [], cs) = [(p, [], cs)]"
  by simp

lemma ms_star_any_head:
  "\<exists>p' s' rest. ms (RStar RAny) (p, s, cs) = (p', s', cs) # rest"
proof (induction s arbitrary: p)
  case Nil
  show ?case by simp
next
  case (Cons x xs)
  from Cons.IH [of "Suc p"] show ?case
    by (cases "isLineTerminator x") (auto simp del: ms.simps simp add: ms_star_any_Cons)
qed

lemma take_length_takeWhile: "take (length (takeWhile P s)) s = takeWhile P s"
  by (induction s) simp_all

section \<open>The extractor's expression finds the token after the last marker\<close>

lemma ms_idTail:
  "\<exists>p' s' rest. ms idTail (p, s, cs) = (p', s', (2, takeWhile tokenChar s) # cs) # rest"
proof -
  obtain r1 where r1: "ms (RStar (RNotSet ''#&?'')) (p, s, cs) =
     (p + length (takeWhile tokenChar s), dropWhile tokenChar s, cs) # r1"
    using ms_star_notset [of "''#&?''" p s cs] unfolding tokenChar_def by blast
  obtain p' s' r2 where r2: "ms (RStar RAny)
      (p + length (takeWhile tokenChar s), dropWhile tokenChar s, (2, takeWhile tokenChar s) # cs) =
      (p', s', (2, takeWhile tokenChar s) # cs) # r2"
    using ms_star_any_head by blast
  show ?thesis
    unfolding idTail_def ms.simps(8) ms.simps(11) r1
    by (simp add: r2 take_length_takeWhile del: ms.simps)
qed

lemma firstMatch_markers_idTail:
  "map_option (\<lambda>m. capture m 2) (firstMatch (ms (RSeq (RGroup 1 markers) idTail) (p, s, cs)))
     = map_option Some (tokenAfterMarker s)"
proof (cases "markerLengths s")
  case Nil
  then show ?thesis
    by (simp add: ms_markers tokenAfterMarker_def del: ms.simps(10))
next
  case (Cons k ks)
  obtain p' s' rest where
    "ms idTail (p + k, drop k s, (1, take k s) # cs) =
       (p', s', (2, takeWhile tokenChar (drop k s)) # (1, take k s) # cs) # rest"
    using ms_idTail by blast
  with Cons show ?thesis
    by (simp add: ms_markers tokenAfterMarker_def capture_def del: ms.simps(10))
qed

lemma ms_idSearch_Cons:
  "ms idSearch (p, x # xs, cs) =
     (if isLineTerminator x then [] else ms idSearch (Suc p, xs, cs))
       @ ms (RSeq (RGroup 1 markers) idTail) (p, x # xs, cs)"
  unfolding idSearch_def ms.simps(8) [of "RStar RAny"] ms_star_any_Cons
  by (simp del: ms.simps)

lemma ms_idSearch_Nil:
  "ms idSearch (p, [], cs) = ms (RSeq (RGroup 1 markers) idTail) (p, [], cs)"
  unfolding idSearch_def ms.simps(8) [of "RStar RAny"] ms_star_any_Nil
  by (simp del: ms.simps)

lemma firstMatch_idSearch:
  "map_option (\<lambda>m. capture m 2) (firstMatch (ms idSearch (p, s, cs)))
     = map_option Some (lastMarkerToken s)"
proof (induction s arbitrary: p)
  case Nil
  show ?case
    by (simp only: ms_idSearch_Nil firstMatch_markers_idTail lastMarkerToken.simps)
next
  case (Cons x xs)
  show ?case
  proof (cases "isLineTerminator x")
    case True
    then show ?thesis
      by (simp only: ms_idSearch_Cons if_True append_Nil firstMatch_markers_idTail
            lastMarkerToken.simps)
  next
    case False
    show ?thesis
    proof (cases "firstMatch (ms idSearch (Suc p, xs, cs))")
      case None
      with Cons.IH [of "Suc p"] have "lastMarkerToken xs = None" by simp
      with None False show ?thesis
        by (simp only: ms_idSearch_Cons if_False firstMatch_append option.case
              firstMatch_markers_idTail lastMarkerToken.simps)
    next
      case (Some m)
      with Cons.IH [of "Suc p"] obtain t where
        t: "lastMarkerToken xs = Some t" "capture m 2 = Some t"
        by (cases "lastMarkerToken xs") auto
      from Some False t show ?thesis
        by (simp add: ms_idSearch_Cons firstMatch_append del: ms.simps)
    qed
  qed
qed

lemma regExp_unfold: "regExp = RSeq RBol idSearch"
  by (simp add: regExp_def idSearch_def idTail_def)

lemma ms_regExp: "ms regExp (i, s, cs) = (if i = 0 then ms idSearch (0, s, cs) else [])"
  unfolding regExp_unfold ms.simps(8) [of RBol] ms.simps(5)
  by simp

lemma upt_Suc_0: "[0..<Suc n] = 0 # [Suc 0..<Suc n]"
  by (simp add: upt_rec)

lemma regexp_exec_regExp: "regexp_exec regExp url = firstMatch (ms idSearch (0, url, []))"
proof -
  have B: "concat (map (\<lambda>i. if i = 0 then ms idSearch (0, drop i url, []) else [])
             [Suc 0..<Suc (length url)]) = []"
    by (auto simp del: ms.simps)
  show ?thesis
    unfolding regexp_exec_def upt_Suc_0 [of "length url"]
    by (simp add: ms_regExp B del: ms.simps upt_Suc)
qed

lemma getYouTubeIdFromUrl_lastMarkerToken:
  "getYouTubeIdFromUrl url =
     Inr (case lastMarkerToken url of None \<Rightarrow> [] | Some t \<Rightarrow> if length t = 11 then t else [])"
proof -
  have *: "map_option (\<lambda>m. capture m 2) (regexp_exec regExp url)
             = map_option Some (lastMarkerToken url)"
    by (simp only: regexp_exec_regExp firstMatch_idSearch)
  show ?thesis
  proof (cases "regexp_exec regExp url")
    case None
    with * show ?thesis by (simp add: getYouTubeIdFromUrl_def)
  next
    case (Some m)
    with * show ?thesis by (cases "lastMarkerToken url") (auto simp add: getYouTubeIdFromUrl_def)
  qed
qed

section \<open>The scan from the right and the last reachable marker\<close>

lemma markerLengths_Nil [simp]: "markerLengths [] = []"
  by (simp add: markerLengths_def)

lemma markerAt_0: "markerAt s 0 = (markerLengths s \<noteq> [])"
  by (simp add: markerAt_def)

lemma markerAt_Suc: "markerAt (x # xs) (Suc j) = markerAt xs j"
  by (simp add: markerAt_def)

lemma reachable_0: "reachable s 0"
  by (simp add: reachable_def)

lemma reachable_Suc: "reachable (x # xs) (Suc j) = (\<not> isLineTerminator x \<and> reachable xs j)"
  by (simp add: reachable_def)

lemma tokenAt_0: "tokenAt s 0 = (case tokenAfterMarker s of None \<Rightarrow> [] | Some t \<Rightarrow> t)"
  by (simp add: tokenAt_def)

lemma tokenAt_Suc: "tokenAt (x # xs) (Suc j) = tokenAt xs j"
  by (simp add: tokenAt_def)

lemma tokenAfterMarker_None: "(tokenAfterMarker s = None) = (\<not> markerAt s 0)"
  by (simp add: tokenAfterMarker_def markerAt_0 split: list.splits)

lemma tokenAfterMarker_Some: "tokenAfterMarker s = Some t \<Longrightarrow> markerAt s 0 \<and> tokenAt s 0 = t"
  by (simp add: tokenAfterMarker_def markerAt_0 tokenAt_0 split: list.splits)

lemma lastMarkerAt_iff:
  "lastMarkerAt url i =
     (markerAt url i \<and> reachable url i \<and> (\<forall>j>i. \<not> (markerAt url j \<and> reachable url j)))"
proof -
  have "(\<exists>j\<in>set [Suc i..<Suc (length url)]. markerAt url j \<and> reachable url j)
          = (\<exists>j>i. markerAt url j \<and> reachable url j)"
  proof
    assume "\<exists>j\<in>set [Suc i..<Suc (length url)]. markerAt url j \<and> reachable url j"
    then obtain j where "Suc i \<le> j" "markerAt url j \<and> reachable url j" by auto
    then show "\<exists>j>i. markerAt url j \<and> reachable url j" by (metis Suc_le_lessD)
  next
    assume "\<exists>j>i. markerAt url j \<and> reachable url j"
    then obtain j where j: "i < j" "markerAt url j \<and> reachable url j" by blast
    then have "j \<le> length url" by (simp add: markerAt_def)
    with j(1) have "j \<in> set [Suc i..<Suc (length url)]" by auto
    with j(2) show "\<exists>j\<in>set [Suc i..<Suc (length url)]. markerAt url j \<and> reachable url j"
      by blast
  qed
  then show ?thesis unfolding lastMarkerAt_def list_ex_iff by blast
qed

lemma lastMarkerAt_unique: "lastMarkerAt url i \<Longrightarrow> lastMarkerAt url j \<Longrightarrow> i = j"
  unfolding lastMarkerAt_iff by (meson linorder_neqE_nat)

lemma lastMarkerToken_sound:
  "(lastMarkerToken s = None \<longrightarrow> (\<forall>i. \<not> (markerAt s i \<and> reachable s i))) \<and>
   (\<forall>t. lastMarkerToken s = Some t \<longrightarrow> (\<exists>i. lastMarkerAt s i \<and> tokenAt s i = t))"
proof (induction s)
  case Nil
  show ?case by (simp add: tokenAfterMarker_def markerAt_def)
next
  case (Cons x xs)
  have split: "\<And>P. (\<forall>i. P i) = (P 0 \<and> (\<forall>j. P (Suc j)))"
    by (metis not0_implies_Suc)
  show ?case
  proof (cases "isLineTerminator x")
    case True
    have none: "tokenAfterMarker (x # xs) = None \<Longrightarrow>
                  (\<forall>i. \<not> (markerAt (x # xs) i \<and> reachable (x # xs) i))"
      using True by (subst split) (simp add: tokenAfterMarker_None reachable_Suc)
    have some: "\<And>t. tokenAfterMarker (x # xs) = Some t \<Longrightarrow>
                  lastMarkerAt (x # xs) 0 \<and> tokenAt (x # xs) 0 = t"
    proof -
      fix t assume "tokenAfterMarker (x # xs) = Some t"
      then have "markerAt (x # xs) 0" "tokenAt (x # xs) 0 = t"
        using tokenAfterMarker_Some by blast+
      moreover have "\<forall>j>0. \<not> (markerAt (x # xs) j \<and> reachable (x # xs) j)"
        using True by (metis Suc_pred reachable_Suc)
      ultimately show "lastMarkerAt (x # xs) 0 \<and> tokenAt (x # xs) 0 = t"
        by (simp add: lastMarkerAt_iff reachable_0)
    qed
    from True none some show ?thesis by auto
  next
    case False
    show ?thesis
    proof (cases "lastMarkerToken xs")
      case None
      with Cons.IH have no: "\<forall>i. \<not> (markerAt xs i \<and> reachable xs i)" by simp
      have none: "tokenAfterMarker (x # xs) = None \<Longrightarrow>
                  (\<forall>i. \<not> (markerAt (x # xs) i \<and> reachable (x # xs) i))"
        using no by (subst split) (simp add: tokenAfterMarker_None reachable_Suc markerAt_Suc)
      have some: "\<And>t. tokenAfterMarker (x # xs) = Some t \<Longrightarrow>
                  lastMarkerAt (x # xs) 0 \<and> tokenAt (x # xs) 0 = t"
      proof -
        fix t assume "tokenAfterMarker (x # xs) = Some t"
        then have "markerAt (x # xs) 0" "tokenAt (x # xs) 0 = t"
          using tokenAfterMarker_Some by blast+
        moreover have "\<forall>j>0. \<not> (markerAt (x # xs) j \<and> reachable (x # xs) j)"
          using no by (metis Suc_pred reachable_Suc markerAt_Suc)
        ultimately show "lastMarkerAt (x # xs) 0 \<and> tokenAt (x # xs) 0 = t"
          by (simp add: lastMarkerAt_iff reachable_0)
      qed
      from False None none some show ?thesis by auto
    next
      case (Some t)
      with Cons.IH obtain i where i: "lastMarkerAt xs i" "tokenAt xs i = t" by auto
      have "lastMarkerAt (x # xs) (Suc i)"
        unfolding lastMarkerAt_iff
      proof (intro conjI allI impI)
        show "markerAt (x # xs) (Suc i)" using i(1) by (simp add: lastMarkerAt_iff markerAt_Suc)
        show "reachable (x # xs) (Suc i)"
          using i(1) False by (simp add: lastMarkerAt_iff reachable_Suc)
        fix j assume "Suc i < j"
        then obtain j' where j': "j = Suc j'" "i < j'" by (metis Suc_lessE)
        with i(1) show "\<not> (markerAt (x # xs) j \<and> reachable (x # xs) j)"
          by (simp add: lastMarkerAt_iff markerAt_Suc reachable_Suc)
      qed
      with i(2) Some False show ?thesis by (auto simp add: tokenAt_Suc)
    qed
  qed
qed

lemma lastMarkerToken_None_iff:
  "(lastMarkerToken s = None) = (\<forall>i. \<not> (markerAt s i \<and> reachable s i))"
proof
  assume "lastMarkerToken s = None"
  then show "\<forall>i. \<not> (markerAt s i \<and> reachable s i)" using lastMarkerToken_sound by blast
next
  assume no: "\<forall>i. \<not> (markerAt s i \<and> reachable s i)"
  show "lastMarkerToken s = None"
  proof (cases "lastMarkerToken s")
    case None
    then show ?thesis .
  next
    case (Some t)
    then obtain i where "lastMarkerAt s i" using lastMarkerToken_sound by blast
    with no show ?thesis by (auto simp add: lastMarkerAt_iff)
  qed
qed

lemma lastMarkerToken_Some_iff:
  "(lastMarkerToken s = Some t) = (\<exists>i. lastMarkerAt s i \<and> tokenAt s i = t)"
proof
  assume "lastMarkerToken s = Some t"
  then show "\<exists>i. lastMarkerAt s i \<and> tokenAt s i = t" using lastMarkerToken_sound by blast
next
  assume "\<exists>i. lastMarkerAt s i \<and> tokenAt s i = t"
  then obtain i where i: "lastMarkerAt s i" "tokenAt s i = t" by blast
  show "lastMarkerToken s = Some t"
  proof (cases "lastMarkerToken s")
    case None
    with i(1) show ?thesis by (auto simp add: lastMarkerToken_None_iff lastMarkerAt_iff)
  next
    case (Some t')
    then obtain j where j: "lastMarkerAt s j" "tokenAt s j = t'"
      using lastMarkerToken_sound by blast
    with i lastMarkerAt_unique have "t' = t" by blast
    with Some show ?thesis by simp
  qed
qed

section \<open>Identifiers and the text before a marker\<close>

lemma lastMarkerToken_prepend:
  "\<not> list_ex isLineTerminator pre \<Longrightarrow> lastMarkerToken s = Some t
     \<Longrightarrow> lastMarkerToken (pre @ s) = Some t"
  by (induction pre) simp_all

lemma markerLengths_needs_slash_or_eq:
  assumes "markerLengths s \<noteq> []"
  shows "CHR ''/'' \<in> set s \<or> CHR ''='' \<in> set s"
proof -
  from assms consider "prefix ''youtu.be/'' s" | "prefix ''v/'' s" | "prefix ''u/'' s"
    | "prefix ''embed/'' s" | "prefix ''watch?v='' s" | "prefix ''&v='' s"
    unfolding markerLengths_def by (auto split: if_splits)
  then show ?thesis
    by cases (auto dest!: set_mono_prefix)
qed

lemma idChars_no_slash_eq: "c \<in> set idChars \<Longrightarrow> c \<noteq> CHR ''/'' \<and> c \<noteq> CHR ''=''"
  by (auto simp add: idChars_def)

lemma idChars_tokenChar: "c \<in> set idChars \<Longrightarrow> tokenChar c"
  by (auto simp add: idChars_def tokenChar_def)

lemma idChars_not_lineTerminator: "c \<in> set idChars \<Longrightarrow> \<not> isLineTerminator c"
  by (auto simp add: idChars_def isLineTerminator_def)

lemma markerAt_idChars:
  assumes "list_all (\<lambda>c. c \<in> set idChars) s"
  shows "\<not> markerAt s i"
proof
  assume "markerAt s i"
  then have "markerLengths (drop i s) \<noteq> []" by (simp add: markerAt_def)
  then have "CHR ''/'' \<in> set (drop i s) \<or> CHR ''='' \<in> set (drop i s)"
    by (rule markerLengths_needs_slash_or_eq)
  then have "CHR ''/'' \<in> set s \<or> CHR ''='' \<in> set s"
    using set_drop_subset [of i s] by blast
  with assms idChars_no_slash_eq show False
    by (auto simp add: list_all_iff)
qed

lemma lastMarkerToken_idChars:
  "list_all (\<lambda>c. c \<in> set idChars) s \<Longrightarrow> lastMarkerToken s = None"
  by (simp add: lastMarkerToken_None_iff markerAt_idChars)

lemma takeWhile_tokenChar_idChars:
  "list_all (\<lambda>c. c \<in> set idChars) s \<Longrightarrow> takeWhile tokenChar s = s"
  by (simp add: list_all_iff idChars_tokenChar)

lemma lastMarkerToken_after_short:
  "lastMarkerToken s = None \<Longrightarrow> lastMarkerToken (''youtu.be/'' @ s) = Some (takeWhile tokenChar s)"
  by (simp add: isLineTerminator_def tokenAfterMarker_def markerLengths_def)

lemma lastMarkerToken_after_watch:
  "lastMarkerToken s = None \<Longrightarrow> lastMarkerToken (''watch?v='' @ s) = Some (takeWhile tokenChar s)"
  by (simp add: isLineTerminator_def tokenAfterMarker_def markerLengths_def)

lemma lastMarkerToken_after_embed:
  "lastMarkerToken s = None \<Longrightarrow> lastMarkerToken (''embed/'' @ s) = Some (takeWhile tokenChar s)"
  by (simp add: isLineTerminator_def tokenAfterMarker_def markerLengths_def)

lemma getYouTubeIdFromUrl_forms:
  assumes "isVideoId ident" and "\<not> list_ex isLineTerminator pre"
  shows "getYouTubeIdFromUrl (pre @ ''youtu.be/'' @ ident) = Inr ident"
    and "getYouTubeIdFromUrl (pre @ ''watch?v='' @ ident) = Inr ident"
    and "getYouTubeIdFromUrl (pre @ ''embed/'' @ ident) = Inr ident"
proof -
  from assms(1) have len: "length ident = 11" and all: "list_all (\<lambda>c. c \<in> set idChars) ident"
    by (simp_all add: isVideoId_def)
  from all have none: "lastMarkerToken ident = None" and tok: "takeWhile tokenChar ident = ident"
    by (simp_all add: lastMarkerToken_idChars takeWhile_tokenChar_idChars)
  have "lastMarkerToken (pre @ ''youtu.be/'' @ ident) = Some ident"
    using lastMarkerToken_prepend [OF assms(2) lastMarkerToken_after_short [OF none]] tok by simp
  then show "getYouTubeIdFromUrl (pre @ ''youtu.be/'' @ ident) = Inr ident"
    by (simp add: getYouTubeIdFromUrl_lastMarkerToken len)
  have "lastMarkerToken (pre @ ''watch?v='' @ ident) = Some ident"
    using lastMarkerToken_prepend [OF assms(2) lastMarkerToken_after_watch [OF none]] tok by simp
  then show "getYouTubeIdFromUrl (pre @ ''watch?v='' @ ident) = Inr ident"
    by (simp add: getYouTubeIdFromUrl_lastMarkerToken len)
  have "lastMarkerToken (pre @ ''embed/'' @ ident) = Some ident"
    using lastMarkerToken_prepend [OF assms(2) lastMarkerToken_after_embed [OF none]] tok by simp
  then show "getYouTubeIdFromUrl (pre @ ''embed/'' @ ident) = Inr ident"
    by (simp add: getYouTubeIdFromUrl_lastMarkerToken len)
qed

section \<open>What the form's expression accepts\<close>

lemma ms_repeat_set:
  "ms (repeat n (RSet A)) (p, s, cs) =
     (if n \<le> length s \<and> list_all (\<lambda>c. c \<in> set A) (take n s)
      then [(p + n, drop n s, cs)] else [])"
proof (induction n arbitrary: p s)
  case 0
  show ?case by simp
next
  case (Suc n)
  show ?case
  proof (cases s)
    case Nil
    then show ?thesis by simp
  next
    case (Cons x xs)
    then show ?thesis using Suc.IH [of "Suc p" xs] by simp
  qed
qed

lemma ms_star_any_eol:
  "ms (RSeq (RStar RAny) REol) (p, s, cs) =
     (if list_ex isLineTerminator s then [] else [(p + length s, [], cs)])"
proof (induction s arbitrary: p)
  case Nil
  show ?case by simp
next
  case (Cons x xs)
  have "ms (RSeq (RStar RAny) REol) (p, x # xs, cs) =
          (if isLineTerminator x then [] else ms (RSeq (RStar RAny) REol) (Suc p, xs, cs))"
    unfolding ms.simps(8) [of "RStar RAny"] ms_star_any_Cons by (simp del: ms.simps(10))
  with Cons.IH [of "Suc p"] show ?case by simp
qed

lemma ms_seq_nonempty:
  "(ms (RSeq a k) st \<noteq> []) = (\<exists>st' \<in> set (ms a st). ms k st' \<noteq> [])"
  by (cases st) auto

lemma in_ms_optional: "st' \<in> set (ms (optional r) st) \<Longrightarrow> st' \<in> set (ms r st) \<or> st' = st"
  by (cases st) (auto simp add: optional_def)

lemma in_ms_alt: "st' \<in> set (ms (RAlt a b) st) \<Longrightarrow> st' \<in> set (ms a st) \<or> st' \<in> set (ms b st)"
  by (cases st) auto

lemma in_ms_seq:
  "st'' \<in> set (ms (RSeq a b) st) \<Longrightarrow> \<exists>st' \<in> set (ms a st). st'' \<in> set (ms b st')"
  by (cases st) auto

lemma in_ms_group:
  "st' \<in> set (ms (RGroup n r) st) \<Longrightarrow> \<exists>st'' \<in> set (ms r st). remaining st' = remaining st''"
  by (cases st) (force simp add: remaining_def simp del: ms.simps(1-10))

lemma in_ms_literal: "st' \<in> set (ms (literal w) st) \<Longrightarrow> remaining st = w @ remaining st'"
  by (cases st) (auto simp add: ms_literal prefix_def remaining_def simp del: literal.simps)

lemma in_ms_char: "st' \<in> set (ms (RChar c) st) \<Longrightarrow> remaining st = c # remaining st'"
  by (cases st) (auto simp add: remaining_def split: list.splits if_splits)

lemma ms_formTail_nonempty: "(ms formTail st \<noteq> []) = okTail (remaining st)"
proof (cases st)
  case (fields p s cs)
  show ?thesis
    unfolding fields formTail_def ms.simps(8) [of "RGroup 4 (repeat 11 (RSet idChars))"]
      ms.simps(11) ms_repeat_set
    by (simp add: okTail_def ms_star_any_eol remaining_def del: ms.simps)
qed

lemma formHost_accepts:
  assumes "ms formHost st \<noteq> []"
  shows "\<exists>h t. remaining st = h @ t \<and> (h = ''youtube.com/watch?v='' \<or> h = ''youtu.be/'') \<and> okTail t"
proof -
  from assms obtain st' where
    st': "st' \<in> set (ms (RGroup 3 (RAlt (literal ''youtube.com/watch?v='') (literal ''youtu.be/''))) st)"
    and ok: "okTail (remaining st')"
    unfolding formHost_def ms_seq_nonempty ms_formTail_nonempty by blast
  from in_ms_group [OF st'] obtain st'' where
    st'': "st'' \<in> set (ms (RAlt (literal ''youtube.com/watch?v='') (literal ''youtu.be/'')) st)"
    and eq: "remaining st' = remaining st''" by blast
  from in_ms_alt [OF st''] have
    "remaining st = ''youtube.com/watch?v='' @ remaining st'' \<or>
     remaining st = ''youtu.be/'' @ remaining st''"
    using in_ms_literal by blast
  with ok eq show ?thesis by metis
qed

lemma formWww_accepts:
  assumes "ms formWww st \<noteq> []"
  shows "\<exists>w h t. remaining st = w @ h @ t \<and> (w = ''www.'' \<or> w = [])
           \<and> (h = ''youtube.com/watch?v='' \<or> h = ''youtu.be/'') \<and> okTail t"
proof -
  from assms obtain st' where
    st': "st' \<in> set (ms (optional (RGroup 2 (literal ''www.''))) st)"
    and ne: "ms formHost st' \<noteq> []"
    unfolding formWww_def ms_seq_nonempty by blast
  from formHost_accepts [OF ne] obtain h t where
    ht: "remaining st' = h @ t" "h = ''youtube.com/watch?v='' \<or> h = ''youtu.be/''" "okTail t"
    by blast
  from in_ms_optional [OF st'] have "remaining st = ''www.'' @ remaining st' \<or> remaining st = [] @ remaining st'"
  proof
    assume "st' \<in> set (ms (RGroup 2 (literal ''www.'')) st)"
    from in_ms_group [OF this] in_ms_literal show ?thesis by metis
  next
    assume "st' = st"
    then show ?thesis by simp
  qed
  with ht show ?thesis by metis
qed

lemma scheme_accepts:
  assumes "st' \<in> set (ms (RSeq (literal ''http'') (RSeq (optional (RChar CHR ''s'')) (literal ''://''))) st)"
  shows "remaining st = ''http://'' @ remaining st' \<or> remaining st = ''https://'' @ remaining st'"
proof -
  from in_ms_seq [OF assms] obtain st1 where
    st1: "st1 \<in> set (ms (literal ''http'') st)"
    and r: "st' \<in> set (ms (RSeq (optional (RChar CHR ''s'')) (literal ''://'')) st1)" by blast
  from in_ms_seq [OF r] obtain st2 where
    st2: "st2 \<in> set (ms (optional (RChar CHR ''s'')) st1)"
    and st3: "st' \<in> set (ms (literal ''://'') st2)" by blast
  have a: "remaining st = ''http'' @ remaining st1" using in_ms_literal [OF st1] .
  have c: "remaining st2 = ''://'' @ remaining st'" using in_ms_literal [OF st3] .
  from in_ms_optional [OF st2] have "remaining st1 = remaining st2 \<or> remaining st1 = CHR ''s'' # remaining st2"
    using in_ms_char by blast
  with a c show ?thesis by auto
qed

lemma formScheme_accepts:
  assumes "ms formScheme st \<noteq> []"
  shows "\<exists>pre t. remaining st = pre @ t \<and> pre \<in> set formPrefixes \<and> okTail t"
proof -
  from assms obtain st' where
    st': "st' \<in> set (ms (optional (RGroup 1
             (RSeq (literal ''http'') (RSeq (optional (RChar CHR ''s'')) (literal ''://''))))) st)"
    and ne: "ms formWww st' \<noteq> []"
    unfolding formScheme_def ms_seq_nonempty by blast
  from formWww_accepts [OF ne] obtain w h t where
    wht: "remaining st' = w @ h @ t" "w = ''www.'' \<or> w = []"
      "h = ''youtube.com/watch?v='' \<or> h = ''youtu.be/''" "okTail t"
    by blast
  from in_ms_optional [OF st'] have
    "\<exists>sch. remaining st = sch @ remaining st' \<and> (sch = ''http://'' \<or> sch = ''https://'' \<or> sch = [])"
  proof
    assume "st' \<in> set (ms (RGroup 1
             (RSeq (literal ''http'') (RSeq (optional (RChar CHR ''s'')) (literal ''://'')))) st)"
    from in_ms_group [OF this] scheme_accepts show ?thesis by metis
  next
    assume "st' = st"
    then show ?thesis by simp
  qed
  then obtain sch where sch: "remaining st = sch @ remaining st'"
    "sch = ''http://'' \<or> sch = ''https://'' \<or> sch = []" by blast
  from sch(2) wht(2,3) have "sch @ w @ h \<in> set formPrefixes"
    by (auto simp add: formPrefixes_def)
  moreover from sch(1) wht(1) have "remaining st = (sch @ w @ h) @ t" by simp
  ultimately show ?thesis using wht(4) by blast
qed

lemma YOUTUBE_URL_REGEX_unfold: "YOUTUBE_URL_REGEX = RSeq RBol formScheme"
  by (simp add: YOUTUBE_URL_REGEX_def formScheme_def formWww_def formHost_def formTail_def)

lemma ms_YOUTUBE_URL_REGEX:
  "ms YOUTUBE_URL_REGEX (i, s, cs) = (if i = 0 then ms formScheme (0, s, cs) else [])"
  unfolding YOUTUBE_URL_REGEX_unfold ms.simps(8) [of RBol] ms.simps(5)
  by simp

lemma regexp_exec_YOUTUBE_URL_REGEX:
  "regexp_exec YOUTUBE_URL_REGEX url = firstMatch (ms formScheme (0, url, []))"
proof -
  have B: "concat (map (\<lambda>i. if i = 0 then ms formScheme (0, drop i url, []) else [])
             [Suc 0..<Suc (length url)]) = []"
    by (auto simp del: ms.simps)
  show ?thesis
    unfolding regexp_exec_def upt_Suc_0 [of "length url"]
    by (simp add: ms_YOUTUBE_URL_REGEX B del: ms.simps upt_Suc)
qed

lemma YOUTUBE_URL_REGEX_accepts:
  assumes "regexp_test YOUTUBE_URL_REGEX url"
  shows "\<exists>pre ident rest. url = pre @ ident @ rest \<and> pre \<in> set formPrefixes \<and> isVideoId ident
           \<and> \<not> list_ex isLineTerminator rest"
proof -
  from assms have "ms formScheme (0, url, []) \<noteq> []"
    by (auto simp add: regexp_test_def regexp_exec_YOUTUBE_URL_REGEX simp del: ms.simps)
  from formScheme_accepts [OF this] obtain pre t where
    t: "url = pre @ t" "pre \<in> set formPrefixes" "okTail t"
    by (auto simp add: remaining_def)
  from t(3) have "t = take 11 t @ drop 11 t" "isVideoId (take 11 t)"
    "\<not> list_ex isLineTerminator (drop 11 t)"
    by (simp_all add: okTail_def isVideoId_def)
  with t(1,2) show ?thesis by metis
qed

lemma markerFree_iff: "markerFree s = (\<forall>i. \<not> markerAt s i)"
proof -
  have "(\<exists>i\<in>set [0..<Suc (length s)]. markerAt s i) = (\<exists>i. markerAt s i)"
  proof
    assume "\<exists>i\<in>set [0..<Suc (length s)]. markerAt s i"
    then show "\<exists>i. markerAt s i" by blast
  next
    assume "\<exists>i. markerAt s i"
    then obtain i where i: "markerAt s i" by blast
    then have "i \<le> length s" by (simp add: markerAt_def)
    then have "i \<in> set [0..<Suc (length s)]" by auto
    with i show "\<exists>i\<in>set [0..<Suc (length s)]. markerAt s i" by blast
  qed
  then show ?thesis unfolding markerFree_def list_ex_iff by blast
qed

lemma lastMarkerToken_markerFree: "markerFree s \<Longrightarrow> lastMarkerToken s = None"
  by (simp add: lastMarkerToken_None_iff markerFree_iff)

lemma lastMarkerToken_formPrefix:
  "pre \<in> set formPrefixes \<Longrightarrow> lastMarkerToken s = None
     \<Longrightarrow> lastMarkerToken (pre @ s) = Some (takeWhile tokenChar s)"
  by (auto simp add: formPrefixes_def isLineTerminator_def tokenAfterMarker_def markerLengths_def)

lemma takeWhile_token_ident:
  assumes "isVideoId ident" and "rest = [] \<or> \<not> tokenChar (hd rest)"
  shows "takeWhile tokenChar (ident @ rest) = ident"
proof -
  from assms(1) have all: "\<forall>c\<in>set ident. tokenChar c"
    by (simp add: isVideoId_def list_all_iff idChars_tokenChar)
  from assms(2) have "takeWhile tokenChar rest = []"
    by (cases rest) auto
  with all show ?thesis by (simp add: takeWhile_append2)
qed

lemma handleSubmit_accepts: "handleSubmit url = Inr url' \<Longrightarrow> regexp_test YOUTUBE_URL_REGEX url"
  by (simp add: handleSubmit_def split: if_splits)

lemma form_extraction:
  assumes "handleSubmit url = Inr url"
  shows "\<exists>pre ident rest. url = pre @ ident @ rest \<and> pre \<in> set formPrefixes \<and> isVideoId ident \<and>
           ((rest = [] \<or> \<not> tokenChar (hd rest)) \<and> markerFree (ident @ rest)
              \<longrightarrow> getYouTubeIdFromUrl url = Inr ident)"
proof -
  from YOUTUBE_URL_REGEX_accepts [OF handleSubmit_accepts [OF assms]] obtain pre ident rest where
    d: "url = pre @ ident @ rest" "pre \<in> set formPrefixes" "isVideoId ident" by blast
  have "getYouTubeIdFromUrl url = Inr ident"
    if c: "rest = [] \<or> \<not> tokenChar (hd rest)" "markerFree (ident @ rest)"
  proof -
    from c(2) have "lastMarkerToken (ident @ rest) = None" by (rule lastMarkerToken_markerFree)
    from lastMarkerToken_formPrefix [OF d(2) this] takeWhile_token_ident [OF d(3) c(1)]
    have "lastMarkerToken url = Some ident" by (simp add: d(1))
    with d(3) show ?thesis by (simp add: getYouTubeIdFromUrl_lastMarkerToken isVideoId_def)
  qed
  with d show ?thesis by blast
qed

section \<open>The store and the objects of the interface\<close>

lemma saveVideoData_available:
  "available st \<Longrightarrow> videoId \<noteq> [] \<Longrightarrow>
     saveVideoData st videoId data = Inr (st\<lparr>items := (items st)(videoId \<mapsto> JsonText data)\<rparr>)"
  by (simp add: saveVideoData_def JSON_stringify_def setItem_def available_def)

lemma saveVideoData_record:
  "available st \<Longrightarrow> videoId \<noteq> [] \<Longrightarrow>
     saveVideoData st videoId (videoDataObj r) = Inr (withRecord st videoId r)"
  by (simp add: saveVideoData_available withRecord_def)

lemma getVideoData_stored:
  "\<not> accessDenied st \<Longrightarrow> videoId \<noteq> [] \<Longrightarrow> items st videoId = Some (JsonText v) \<Longrightarrow>
     getVideoData st videoId = Inr v"
  by (simp add: getVideoData_def getItem_def)

lemma getVideoData_total: "\<exists>v. getVideoData st videoId = Inr v"
  by (auto simp add: getVideoData_def split: sum.splits option.splits)

lemma saveVideoData_total: "\<exists>st'. saveVideoData st videoId data = Inr st'"
  by (auto simp add: saveVideoData_def split: sum.splits)

lemma available_withRecord [simp]: "available (withRecord st videoId r) = available st"
  by (simp add: available_def withRecord_def)

lemma items_withRecord [simp]:
  "items (withRecord st videoId r) = (items st)(videoId \<mapsto> JsonText (videoDataObj r))"
  by (simp add: withRecord_def)

lemma withRecord_twice [simp]:
  "withRecord (withRecord st videoId r) videoId r' = withRecord st videoId r'"
  by (simp add: withRecord_def)

lemma truthy_videoDataObj [simp]: "truthy (videoDataObj r)"
  by (simp add: videoDataObj_def)

lemma getProp_videoDataObj [simp]:
  "getProp (videoDataObj r) ''originalUrl'' = Some (JStr (originalUrl r))"
  "getProp (videoDataObj r) ''lastKnownVideoTime'' = Some (JNum (lastKnownVideoTime r))"
  "getProp (videoDataObj r) ''lastKnownSystemTime'' = Some (JNum (lastKnownSystemTime r))"
  by (simp_all add: getProp_def videoDataObj_def)

lemma spread_system_time:
  "objectLiteral (ownProps (videoDataObj r)) [(''lastKnownSystemTime'', JNum x)]
     = videoDataObj (r\<lparr>lastKnownSystemTime := x\<rparr>)"
  by (simp add: objectLiteral_def videoDataObj_def)

lemma spread_both_times:
  "objectLiteral (ownProps (videoDataObj r))
       [(''lastKnownVideoTime'', JNum t), (''lastKnownSystemTime'', JNum x)]
     = videoDataObj (r\<lparr>lastKnownVideoTime := t, lastKnownSystemTime := x\<rparr>)"
  by (simp add: objectLiteral_def videoDataObj_def)

lemma spread_url_system_time:
  "objectLiteral (ownProps (videoDataObj r))
       [(''originalUrl'', JStr u), (''lastKnownSystemTime'', JNum x)]
     = videoDataObj (r\<lparr>originalUrl := u, lastKnownSystemTime := x\<rparr>)"
  by (simp add: objectLiteral_def videoDataObj_def)

lemma literal_new_record:
  "objectLiteral []
       [(''originalUrl'', JStr u), (''lastKnownVideoTime'', JNum t), (''lastKnownSystemTime'', JNum x)]
     = videoDataObj \<lparr>originalUrl = u, lastKnownVideoTime = t, lastKnownSystemTime = x\<rparr>"
  by (simp add: objectLiteral_def videoDataObj_def)

section \<open>The handlers on a stored record\<close>

lemma handleSaveUrl_new:
  assumes "getYouTubeIdFromUrl url = Inr videoId" and "videoId \<noteq> []" and "available st"
    and "items st videoId = None"
  shows "handleSaveUrl st now url =
           Inr (withRecord st videoId
                  \<lparr>originalUrl = url, lastKnownVideoTime = 0, lastKnownSystemTime = of_int now\<rparr>,
                Some (ToVideo videoId))"
  using assms
  by (simp add: handleSaveUrl_def getVideoData_def getItem_def available_def literal_new_record
        saveVideoData_record)

lemma handleSaveUrl_existing:
  assumes "getYouTubeIdFromUrl url = Inr videoId" and "videoId \<noteq> []" and "available st"
    and "items st videoId = Some (JsonText (videoDataObj r))"
  shows "handleSaveUrl st now url =
           Inr (withRecord st videoId (r\<lparr>originalUrl := url, lastKnownSystemTime := of_int now\<rparr>),
                Some (ToVideo videoId))"
  using assms
  by (simp add: handleSaveUrl_def getVideoData_stored available_def spread_url_system_time
        saveVideoData_record)

lemma handleBackToVideo_existing:
  assumes "videoId \<noteq> []" and "available st"
    and "items st videoId = Some (JsonText (videoDataObj r))"
  shows "handleBackToVideo st now (Some videoId) =
           Inr (withRecord st videoId (r\<lparr>lastKnownSystemTime := of_int now\<rparr>), ToVideo videoId)"
  using assms
  by (simp add: handleBackToVideo_def getVideoData_stored available_def spread_system_time
        saveVideoData_record)

lemma refinedHandleEdit_loaded:
  assumes "videoId \<noteq> []" and "available st"
    and "currentVideoId v = Some videoId" and "playerData v = videoDataObj r"
    and "originalUrl r \<noteq> []"
  shows "refinedHandleEdit st now v =
           Inr (withRecord st videoId (r\<lparr>lastKnownSystemTime := of_int now\<rparr>),
                ToHomeWithUrl (JStr (originalUrl r)))"
  using assms
  by (simp add: refinedHandleEdit_def spread_system_time saveVideoData_record)

lemma handleTimeUpdate_loaded:
  assumes "videoId \<noteq> []" and "available st"
    and "currentVideoId v = Some videoId" and "playerData v = videoDataObj r"
  shows "handleTimeUpdate st now t v =
           Inr (v\<lparr>currentTime := t,
                  playerData := videoDataObj (r\<lparr>lastKnownVideoTime := t, lastKnownSystemTime := of_int now\<rparr>)\<rparr>,
                withRecord st videoId (r\<lparr>lastKnownVideoTime := t, lastKnownSystemTime := of_int now\<rparr>))"
  using assms
  by (simp add: handleTimeUpdate_def spread_both_times saveVideoData_record)

lemma handlePlayerStateChange_loaded:
  assumes "videoId \<noteq> []" and "available st"
    and "currentVideoId v = Some videoId" and "playerData v = videoDataObj r"
  shows "handlePlayerStateChange st now isPlaying t v =
           Inr (v\<lparr>playerData := videoDataObj (r\<lparr>lastKnownVideoTime := t, lastKnownSystemTime := of_int now\<rparr>)\<rparr>,
                withRecord st videoId (r\<lparr>lastKnownVideoTime := t, lastKnownSystemTime := of_int now\<rparr>))"
  using assms
  by (simp add: handlePlayerStateChange_def spread_both_times saveVideoData_record)

lemma handleBeforeUnload_loaded:
  assumes "videoId \<noteq> []" and "available st"
    and "currentVideoId v = Some videoId" and "playerData v = videoDataObj r"
    and "0 < currentTime v"
  shows "handleBeforeUnload st now v =
           Inr (withRecord st videoId
                  (r\<lparr>lastKnownVideoTime := currentTime v, lastKnownSystemTime := of_int now\<rparr>))"
  using assms
  by (simp add: handleBeforeUnload_def spread_both_times saveVideoData_record)

lemma handleBeforeUnload_not_positive:
  "currentTime v \<le> 0 \<Longrightarrow> handleBeforeUnload st now v = Inr st"
  by (simp add: handleBeforeUnload_def split: option.splits)

lemma mountEffect_record:
  assumes "videoId \<noteq> []" and "\<not> accessDenied st"
    and "items st videoId = Some (JsonText (videoDataObj r))" and "originalUrl r \<noteq> []"
  shows "mountEffect st now (Some videoId) v =
           Inr (v\<lparr>currentVideoId := Some videoId, playerData := videoDataObj r,
                  calculatedStartTime :=
                    Some (max 0 (lastKnownVideoTime r + (of_int now - lastKnownSystemTime r) / 1000)),
                  isLoading := False\<rparr>, None)"
  using assms
  by (simp add: mountEffect_def getVideoData_stored startTimeOf_def newStartTime_def max_def)

section \<open>Sequences of player callbacks\<close>

lemma handleTimeUpdate_currentTime:
  "handleTimeUpdate st now t v = Inr (v', st') \<Longrightarrow> currentTime v' = t"
  by (auto simp add: handleTimeUpdate_def Let_def split: option.splits if_splits sum.splits)

lemma handlePlayerStateChange_currentTime:
  "handlePlayerStateChange st now isPlaying t v = Inr (v', st') \<Longrightarrow> currentTime v' = currentTime v"
  by (auto simp add: handlePlayerStateChange_def Let_def split: option.splits if_splits sum.splits)

lemma effectCleanup_handleBeforeUnload:
  "effectCleanup st committed v v' = handleBeforeUnload st committed v"
  by (auto simp add: effectCleanup_def dependenciesChanged_def setsPlayerData_def
        handleBeforeUnload_def split: option.splits)


lemma dispatch_currentTime:
  assumes "dispatch (now, committed, ev) (v, st) = Inr (v', st')"
  shows "currentTime v' = (case ev of TimeUpdate t \<Rightarrow> t | PlayerStateChange isPlaying t \<Rightarrow> currentTime v)"
proof -
  from assms obtain st1 where c: "callback ev st now v = Inr (v', st1)"
    by (auto split: sum.splits)
  then show ?thesis
    by (cases ev) (simp_all add: handleTimeUpdate_currentTime handlePlayerStateChange_currentTime)
qed

lemma runEvents_currentTime:
  "runEvents evs (v, st) = Inr (v', st') \<Longrightarrow>
     currentTime v' = (case lastTimeUpdate evs of None \<Rightarrow> currentTime v | Some t \<Rightarrow> t)"
proof (induction evs arbitrary: v st)
  case Nil
  then show ?case by simp
next
  case (Cons e evs)
  obtain now committed ev where e: "e = (now, committed, ev)" by (cases e)
  from Cons.prems obtain v1 st1 where
    step: "dispatch e (v, st) = Inr (v1, st1)" and rest: "runEvents evs (v1, st1) = Inr (v', st')"
    by (auto split: sum.splits)
  note ih = Cons.IH [OF rest]
  note ct = dispatch_currentTime [OF step [unfolded e]]
  show ?case
  proof (cases ev)
    case (TimeUpdate t)
    with ih e ct show ?thesis by (simp split: option.splits)
  next
    case (PlayerStateChange isPlaying t)
    with ih e ct show ?thesis by (simp split: option.splits)
  qed
qed

lemma lastTimeUpdate_not_positive:
  "\<forall>e\<in>set evs. \<forall>t. snd (snd e) = TimeUpdate t \<longrightarrow> t \<le> 0 \<Longrightarrow>
     (case lastTimeUpdate evs of None \<Rightarrow> True | Some t \<Rightarrow> t \<le> 0)"
proof (induction evs)
  case Nil
  show ?case by simp
next
  case (Cons e evs)
  obtain now committed ev where e: "e = (now, committed, ev)" by (cases e)
  from Cons have ih: "case lastTimeUpdate evs of None \<Rightarrow> True | Some t \<Rightarrow> t \<le> 0" by simp
  show ?case
  proof (cases ev)
    case (TimeUpdate t)
    with Cons.prems e have "t \<le> 0" by simp
    with ih e TimeUpdate show ?thesis by (simp split: option.splits)
  next
    case (PlayerStateChange isPlaying t)
    with ih e show ?thesis by simp
  qed
qed




lemma dispatch_report_loaded:
  assumes "videoId \<noteq> []" and "available st"
    and "currentVideoId v = Some videoId" and "playerData v = videoDataObj r"
  shows "dispatch (now, committed, TimeUpdate t) (v, st) =
           Inr (v\<lparr>currentTime := t,
                  playerData := videoDataObj (r\<lparr>lastKnownVideoTime := t, lastKnownSystemTime := of_int now\<rparr>)\<rparr>,
                withRecord st videoId
                  (if 0 < currentTime v
                   then r\<lparr>lastKnownVideoTime := currentTime v, lastKnownSystemTime := of_int committed\<rparr>
                   else r\<lparr>lastKnownVideoTime := t, lastKnownSystemTime := of_int now\<rparr>))"
proof (cases "0 < currentTime v")
  case True
  have av: "available (withRecord st videoId
              (r\<lparr>lastKnownVideoTime := t, lastKnownSystemTime := of_int now\<rparr>))"
    using assms(2) by simp
  from handleBeforeUnload_loaded [OF assms(1) av assms(3,4) True, of committed] True
  show ?thesis
    by (simp add: handleTimeUpdate_loaded [OF assms] effectCleanup_handleBeforeUnload)
next
  case False
  then have "currentTime v \<le> 0" by simp
  with False show ?thesis
    by (simp add: handleTimeUpdate_loaded [OF assms] effectCleanup_handleBeforeUnload
          handleBeforeUnload_not_positive)
qed

lemma dispatch_state_change_loaded:
  assumes "videoId \<noteq> []" and "available st"
    and "currentVideoId v = Some videoId" and "playerData v = videoDataObj r"
  shows "dispatch (now, committed, PlayerStateChange isPlaying t) (v, st) =
           Inr (v\<lparr>playerData := videoDataObj (r\<lparr>lastKnownVideoTime := t, lastKnownSystemTime := of_int now\<rparr>)\<rparr>,
                withRecord st videoId
                  (if 0 < currentTime v
                   then r\<lparr>lastKnownVideoTime := currentTime v, lastKnownSystemTime := of_int committed\<rparr>
                   else r\<lparr>lastKnownVideoTime := t, lastKnownSystemTime := of_int now\<rparr>))"
proof (cases "0 < currentTime v")
  case True
  have av: "available (withRecord st videoId
              (r\<lparr>lastKnownVideoTime := t, lastKnownSystemTime := of_int now\<rparr>))"
    using assms(2) by simp
  from handleBeforeUnload_loaded [OF assms(1) av assms(3,4) True, of committed] True
  show ?thesis
    by (simp add: handlePlayerStateChange_loaded [OF assms] effectCleanup_handleBeforeUnload)
next
  case False
  then have "currentTime v \<le> 0" by simp
  with False show ?thesis
    by (simp add: handlePlayerStateChange_loaded [OF assms] effectCleanup_handleBeforeUnload
          handleBeforeUnload_not_positive)
qed


lemma saveVideoData_other_keys:
  "saveVideoData st videoId data = Inr st' \<Longrightarrow> k \<noteq> videoId \<Longrightarrow> items st' k = items st k"
  by (auto simp add: saveVideoData_def JSON_stringify_def setItem_def split: if_splits)

lemma handleSaveUrl_other_keys:
  assumes "handleSaveUrl st now url = Inr (st', nav)" and "getYouTubeIdFromUrl url = Inr videoId"
    and "k \<noteq> videoId"
  shows "items st' k = items st k"
proof (cases "videoId = []")
  case True
  with assms show ?thesis by (simp add: handleSaveUrl_def)
next
  case False
  obtain existing where e: "getVideoData st videoId = Inr existing"
    using getVideoData_total by blast
  show ?thesis
  proof (cases "truthy existing")
    case True
    obtain st'' where s: "saveVideoData st videoId
        (objectLiteral (ownProps existing)
           [(''originalUrl'', JStr url), (''lastKnownSystemTime'', JNum (of_int now))]) = Inr st''"
      using saveVideoData_total by blast
    from assms(2) False e True s have "handleSaveUrl st now url = Inr (st'', Some (ToVideo videoId))"
      by (simp add: handleSaveUrl_def)
    with assms(1) have "st'' = st'" by simp
    with s assms(3) show ?thesis by (auto dest: saveVideoData_other_keys)
  next
    case nt: False
    obtain st'' where s: "saveVideoData st videoId
        (objectLiteral []
           [(''originalUrl'', JStr url), (''lastKnownVideoTime'', JNum 0),
            (''lastKnownSystemTime'', JNum (of_int now))]) = Inr st''"
      using saveVideoData_total by blast
    from assms(2) False e nt s have "handleSaveUrl st now url = Inr (st'', Some (ToVideo videoId))"
      by (simp add: handleSaveUrl_def)
    with assms(1) have "st'' = st'" by simp
    with s assms(3) show ?thesis by (auto dest: saveVideoData_other_keys)
  qed
qed


lemma formPrefixes_antichain:
  "list_all (\<lambda>p. list_all (\<lambda>q. \<not> prefix p q \<or> p = q) formPrefixes) formPrefixes"
  by code_simp

lemma formPrefixes_unique:
  assumes "pre \<in> set formPrefixes" and "pre' \<in> set formPrefixes" and "pre @ x = pre' @ y"
  shows "pre = pre'"
proof -
  from assms(3) have "prefix pre pre' \<or> prefix pre' pre"
    by (metis append_eq_append_conv2 prefixI)
  with formPrefixes_antichain assms(1,2) show ?thesis
    unfolding list_all_iff by blast
qed

section \<open>The examples\<close>

lemma example_facts:
  "exampleId \<noteq> []" "available emptyStorage" "available exampleStorage"
  "\<not> accessDenied exampleStorage"
  "items exampleStorage exampleId = Some (JsonText (videoDataObj exampleRecord))"
  "items emptyStorage exampleId = None"
  "originalUrl exampleRecord \<noteq> []"
  "currentVideoId examplePage = Some exampleId"
  "playerData examplePage = videoDataObj exampleRecord"
  by (simp_all add: exampleId_def emptyStorage_def exampleStorage_def exampleRecord_def
        examplePage_def available_def withRecord_def)

lemma two_reports:
  "runEvents [(20000, 20001, TimeUpdate 45), (21000, 21001, TimeUpdate 46)]
       (examplePage, exampleStorage) = Inr (laterPage, laterStorage)"
  using example_facts
  by (simp del: dispatch.simps add: laterPage_def laterStorage_def
        dispatch_report_loaded [where videoId = exampleId and r = exampleRecord]
        dispatch_report_loaded
          [where videoId = exampleId
             and r = "exampleRecord\<lparr>lastKnownVideoTime := 45, lastKnownSystemTime := 20000\<rparr>"])

lemma later_facts:
  "available laterStorage"
  "currentVideoId laterPage = Some exampleId"
  "playerData laterPage =
     videoDataObj (exampleRecord\<lparr>lastKnownVideoTime := 46, lastKnownSystemTime := 21000\<rparr>)"
  "items laterStorage exampleId =
     Some (JsonText (videoDataObj (exampleRecord\<lparr>lastKnownVideoTime := 45, lastKnownSystemTime := 21001\<rparr>)))"
  "currentTime laterPage = 46"
  using example_facts
  by (simp_all add: laterPage_def laterStorage_def)

section \<open>The claims\<close>

subsection \<open>C1: the resume time\<close>

text \<open>
  Claim C1. For a stored record with \<open>lastKnownVideoTime\<close> \<open>T\<close> and
  \<open>lastKnownSystemTime\<close> \<open>S\<close> (and a non-empty \<open>originalUrl\<close>, without which the page
  redirects and computes nothing) and every current time \<open>N\<close>, the first effect of the
  video page sets the start time to \<open>max 0 (T + (N - S) / 1000)\<close>. When \<open>N < S\<close> and
  \<open>0 < T\<close> that start time is strictly below \<open>T\<close>: the floor is at zero, not at \<open>T\<close>.
\<close>

theorem resume_time_formula:
  assumes "videoId \<noteq> []" and "\<not> accessDenied st"
    and "items st videoId = Some (JsonText (videoDataObj r))" and "originalUrl r \<noteq> []"
  shows "mountEffect st now (Some videoId) v =
           Inr (v\<lparr>currentVideoId := Some videoId, playerData := videoDataObj r,
                  calculatedStartTime :=
                    Some (max 0 (lastKnownVideoTime r + (of_int now - lastKnownSystemTime r) / 1000)),
                  isLoading := False\<rparr>, None)
         \<and> (of_int now < lastKnownSystemTime r \<and> 0 < lastKnownVideoTime r \<longrightarrow>
              max 0 (lastKnownVideoTime r + (of_int now - lastKnownSystemTime r) / 1000)
                < lastKnownVideoTime r)"
  using mountEffect_record [OF assms] by auto

theorem resume_time_formula_witness:
  "mountEffect exampleStorage 5000 (Some exampleId) initialVideoPage =
     Inr (initialVideoPage\<lparr>currentVideoId := Some exampleId,
            playerData := videoDataObj exampleRecord,
            calculatedStartTime := Some 95, isLoading := False\<rparr>, None)
   \<and> (95 :: real) < lastKnownVideoTime exampleRecord"
  using resume_time_formula [OF example_facts(1) example_facts(4) example_facts(5) example_facts(7),
          of 5000 initialVideoPage]
  by (simp add: exampleRecord_def)

subsection \<open>C2: saving, then loading\<close>

text \<open>
  Claim C2. For every non-empty identifier and every record \<open>r\<close>, with the storage
  available, \<open>saveVideoData\<close> writes \<open>r\<close> under the identifier and \<open>getVideoData\<close> called
  on the storage it leaves returns an object equal to \<open>r\<close>.
\<close>

theorem save_then_load:
  assumes "videoId \<noteq> []" and "available st"
  shows "saveVideoData st videoId (videoDataObj r) = Inr (withRecord st videoId r)
         \<and> getVideoData (withRecord st videoId r) videoId = Inr (videoDataObj r)"
  using assms
  by (simp add: saveVideoData_record getVideoData_stored available_def withRecord_def)

theorem save_then_load_witness:
  "saveVideoData emptyStorage exampleId (videoDataObj exampleRecord) = Inr exampleStorage
   \<and> getVideoData exampleStorage exampleId = Inr (videoDataObj exampleRecord)"
  using save_then_load [OF example_facts(1) example_facts(2), of exampleRecord]
  by (simp add: exampleStorage_def)

subsection \<open>C3: when the extractor returns an identifier\<close>

text \<open>
  Claim C3 as stated fails. In this URL an 11-character token stands right after
  \<open>youtu.be/\<close>, a recognized position, and the extractor returns the empty string: the
  expression takes the last marker, here the \<open>v/\<close> of the query, whose token is \<open>0\<close>.
\<close>

theorem extractor_misses_earlier_token:
  "getYouTubeIdFromUrl ''https://youtu.be/dQw4w9WgXcQ?ref=v/0'' = Inr []
   \<and> tokenOccurs ''https://youtu.be/dQw4w9WgXcQ?ref=v/0''"
  by code_simp

text \<open>
  Claim C3, amended. \<open>getYouTubeIdFromUrl\<close> never throws. It returns a non-empty
  identifier if and only if the last marker that no line terminator precedes is followed
  by a token of exactly 11 characters, and the identifier is then that token; for every
  other string it returns the empty string.
\<close>

theorem extractor_last_marker:
  "(\<exists>t. getYouTubeIdFromUrl url = Inr t)
   \<and> ((\<exists>t. getYouTubeIdFromUrl url = Inr t \<and> t \<noteq> []) =
        (\<exists>i. lastMarkerAt url i \<and> length (tokenAt url i) = 11))
   \<and> (\<forall>i. lastMarkerAt url i \<and> length (tokenAt url i) = 11 \<longrightarrow>
          getYouTubeIdFromUrl url = Inr (tokenAt url i))
   \<and> ((\<forall>i. \<not> (lastMarkerAt url i \<and> length (tokenAt url i) = 11)) \<longrightarrow>
          getYouTubeIdFromUrl url = Inr [])"
proof (cases "lastMarkerToken url")
  case None
  then have "\<forall>i. \<not> lastMarkerAt url i"
    by (simp add: lastMarkerToken_None_iff lastMarkerAt_iff)
  with None show ?thesis by (simp add: getYouTubeIdFromUrl_lastMarkerToken)
next
  case (Some t)
  then obtain i where i: "lastMarkerAt url i" "tokenAt url i = t"
    by (auto simp add: lastMarkerToken_Some_iff)
  have u: "\<And>j. lastMarkerAt url j \<Longrightarrow> tokenAt url j = t"
    using i lastMarkerAt_unique by blast
  show ?thesis
  proof (cases "length t = 11")
    case True
    with Some i u show ?thesis
      by (auto simp add: getYouTubeIdFromUrl_lastMarkerToken)
  next
    case False
    with Some i u show ?thesis
      by (auto simp add: getYouTubeIdFromUrl_lastMarkerToken)
  qed
qed

theorem extractor_last_marker_witness:
  "lastMarkerAt ''https://www.youtube.com/watch?v=dQw4w9WgXcQ&t=42s'' 24
   \<and> tokenAt ''https://www.youtube.com/watch?v=dQw4w9WgXcQ&t=42s'' 24 = ''dQw4w9WgXcQ''
   \<and> getYouTubeIdFromUrl ''https://www.youtube.com/watch?v=dQw4w9WgXcQ&t=42s'' = Inr ''dQw4w9WgXcQ''"
proof -
  have a: "lastMarkerAt ''https://www.youtube.com/watch?v=dQw4w9WgXcQ&t=42s'' 24"
    by code_simp
  have b: "tokenAt ''https://www.youtube.com/watch?v=dQw4w9WgXcQ&t=42s'' 24 = ''dQw4w9WgXcQ''"
    by code_simp
  from extractor_last_marker [of "''https://www.youtube.com/watch?v=dQw4w9WgXcQ&t=42s''"] a b
  show ?thesis by auto
qed

subsection \<open>C4: the three URL forms\<close>

text \<open>
  Claim C4. For every video identifier (11 characters of \<open>[a-zA-Z0-9_-]\<close>), the
  short-link form \<open>youtu.be/id\<close>, the long form \<open>watch?v=id\<close> and the embed form
  \<open>embed/id\<close> of a URL, whatever stands before the marker on the same line, all give
  that identifier.
\<close>

theorem three_forms_same_identifier:
  assumes "isVideoId ident"
    and "\<not> list_ex isLineTerminator pre1" and "\<not> list_ex isLineTerminator pre2"
    and "\<not> list_ex isLineTerminator pre3"
  shows "getYouTubeIdFromUrl (pre1 @ ''youtu.be/'' @ ident) = Inr ident
         \<and> getYouTubeIdFromUrl (pre2 @ ''watch?v='' @ ident) = Inr ident
         \<and> getYouTubeIdFromUrl (pre3 @ ''embed/'' @ ident) = Inr ident"
  using getYouTubeIdFromUrl_forms [OF assms(1)] assms(2-4) by simp

theorem three_forms_same_identifier_witness:
  "isVideoId exampleId
   \<and> getYouTubeIdFromUrl ''https://youtu.be/dQw4w9WgXcQ'' = Inr exampleId
   \<and> getYouTubeIdFromUrl ''https://www.youtube.com/watch?v=dQw4w9WgXcQ'' = Inr exampleId
   \<and> getYouTubeIdFromUrl ''https://www.youtube.com/embed/dQw4w9WgXcQ'' = Inr exampleId"
proof -
  have a: "isVideoId exampleId" by code_simp
  have b: "\<not> list_ex isLineTerminator ''https://''"
    "\<not> list_ex isLineTerminator ''https://www.youtube.com/''"
    by code_simp+
  from three_forms_same_identifier [OF a b(1) b(2) b(2)] a show ?thesis
    by (simp add: exampleId_def)
qed

subsection \<open>C5: which writes set the two time fields\<close>

text \<open>
  Claim C5 as stated fails. On the page as it has loaded the example record, the edit
  button of the video page and the back button of the GIF page each rewrite the stored
  record with \<open>lastKnownSystemTime\<close> set to now (10000 becomes 50000), while
  \<open>lastKnownVideoTime\<close> stays what it was (100).
\<close>

theorem system_time_rewritten_alone:
  "refinedHandleEdit exampleStorage 50000 examplePage =
     Inr (withRecord exampleStorage exampleId (exampleRecord\<lparr>lastKnownSystemTime := 50000\<rparr>),
          ToHomeWithUrl (JStr ''https://youtu.be/dQw4w9WgXcQ''))
   \<and> handleBackToVideo exampleStorage 50000 (Some exampleId) =
     Inr (withRecord exampleStorage exampleId (exampleRecord\<lparr>lastKnownSystemTime := 50000\<rparr>),
          ToVideo exampleId)
   \<and> storedProp exampleStorage exampleId ''lastKnownSystemTime'' = Some (JNum 10000)
   \<and> storedProp (withRecord exampleStorage exampleId (exampleRecord\<lparr>lastKnownSystemTime := 50000\<rparr>))
        exampleId ''lastKnownSystemTime'' = Some (JNum 50000)
   \<and> storedProp exampleStorage exampleId ''lastKnownVideoTime'' = Some (JNum 100)
   \<and> storedProp (withRecord exampleStorage exampleId (exampleRecord\<lparr>lastKnownSystemTime := 50000\<rparr>))
        exampleId ''lastKnownVideoTime'' = Some (JNum 100)"
  using handleBackToVideo_existing [OF example_facts(1) example_facts(3) example_facts(5), of 50000]
    refinedHandleEdit_loaded [OF example_facts(1) example_facts(3) example_facts(8)
      example_facts(9) example_facts(7), of 50000]
  by (simp add: storedProp_def exampleStorage_def exampleRecord_def)

text \<open>
  Claim C5, amended. With a non-empty identifier and the storage available, the saves
  of the pages write the following records, each a whole record whose
  \<open>lastKnownSystemTime\<close> is the time of the save:

  \<^item> on a video page whose state holds the identifier and a record \<open>playerData\<close>, the
    periodic time report and the state change save the time reported together with
    now; the save of \<open>handleBeforeUnload\<close>, made when the state \<open>currentTime\<close> is positive,
    saves \<open>currentTime\<close> together with now; the edit button, when \<open>originalUrl\<close> is not
    empty, saves \<open>playerData\<close> with \<open>lastKnownSystemTime\<close> alone replaced by now, so
    with the \<open>lastKnownVideoTime\<close> that the state holds, whatever the storage held;

  \<^item> the submission of a URL under whose identifier nothing is stored saves 0 together
    with now;

  \<^item> when a record is stored under the identifier, the back button of the GIF page
    saves it with \<open>lastKnownSystemTime\<close> alone replaced by now, and the submission of a
    URL with this identifier saves it with \<open>originalUrl\<close> and \<open>lastKnownSystemTime\<close>
    replaced; both keep the stored \<open>lastKnownVideoTime\<close>.

  So \<open>lastKnownVideoTime\<close> is not written without \<open>lastKnownSystemTime\<close>, while the edit
  button, the back button and the repeated submission write a new
  \<open>lastKnownSystemTime\<close> beside a \<open>lastKnownVideoTime\<close> that was observed earlier.
\<close>

theorem writes_of_the_time_fields:
  assumes "videoId \<noteq> []" and "available st"
  shows "(currentVideoId v = Some videoId \<and> playerData v = videoDataObj rp \<longrightarrow>
            handleTimeUpdate st now t v =
              Inr (v\<lparr>currentTime := t,
                     playerData := videoDataObj (rp\<lparr>lastKnownVideoTime := t, lastKnownSystemTime := of_int now\<rparr>)\<rparr>,
                   withRecord st videoId (rp\<lparr>lastKnownVideoTime := t, lastKnownSystemTime := of_int now\<rparr>))
          \<and> handlePlayerStateChange st now isPlaying t v =
              Inr (v\<lparr>playerData := videoDataObj (rp\<lparr>lastKnownVideoTime := t, lastKnownSystemTime := of_int now\<rparr>)\<rparr>,
                   withRecord st videoId (rp\<lparr>lastKnownVideoTime := t, lastKnownSystemTime := of_int now\<rparr>))
          \<and> (0 < currentTime v \<longrightarrow>
               handleBeforeUnload st now v =
                 Inr (withRecord st videoId
                        (rp\<lparr>lastKnownVideoTime := currentTime v, lastKnownSystemTime := of_int now\<rparr>)))
          \<and> (originalUrl rp \<noteq> [] \<longrightarrow>
               refinedHandleEdit st now v =
                 Inr (withRecord st videoId (rp\<lparr>lastKnownSystemTime := of_int now\<rparr>),
                      ToHomeWithUrl (JStr (originalUrl rp)))))
       \<and> (items st videoId = None \<and> getYouTubeIdFromUrl url = Inr videoId \<longrightarrow>
            handleSaveUrl st now url =
              Inr (withRecord st videoId
                     \<lparr>originalUrl = url, lastKnownVideoTime = 0, lastKnownSystemTime = of_int now\<rparr>,
                   Some (ToVideo videoId)))
       \<and> (items st videoId = Some (JsonText (videoDataObj rs)) \<longrightarrow>
            handleBackToVideo st now (Some videoId) =
              Inr (withRecord st videoId (rs\<lparr>lastKnownSystemTime := of_int now\<rparr>), ToVideo videoId)
          \<and> (getYouTubeIdFromUrl url = Inr videoId \<longrightarrow>
               handleSaveUrl st now url =
                 Inr (withRecord st videoId (rs\<lparr>originalUrl := url, lastKnownSystemTime := of_int now\<rparr>),
                      Some (ToVideo videoId))))"
proof (intro conjI impI)
  assume p: "currentVideoId v = Some videoId \<and> playerData v = videoDataObj rp"
  then have cv: "currentVideoId v = Some videoId" and pd: "playerData v = videoDataObj rp"
    by simp_all
  show "handleTimeUpdate st now t v =
          Inr (v\<lparr>currentTime := t,
                 playerData := videoDataObj (rp\<lparr>lastKnownVideoTime := t, lastKnownSystemTime := of_int now\<rparr>)\<rparr>,
               withRecord st videoId (rp\<lparr>lastKnownVideoTime := t, lastKnownSystemTime := of_int now\<rparr>))"
    by (rule handleTimeUpdate_loaded [OF assms cv pd])
  show "handlePlayerStateChange st now isPlaying t v =
          Inr (v\<lparr>playerData := videoDataObj (rp\<lparr>lastKnownVideoTime := t, lastKnownSystemTime := of_int now\<rparr>)\<rparr>,
               withRecord st videoId (rp\<lparr>lastKnownVideoTime := t, lastKnownSystemTime := of_int now\<rparr>))"
    by (rule handlePlayerStateChange_loaded [OF assms cv pd])
  {
    assume "0 < currentTime v"
    then show "handleBeforeUnload st now v =
                 Inr (withRecord st videoId
                        (rp\<lparr>lastKnownVideoTime := currentTime v, lastKnownSystemTime := of_int now\<rparr>))"
      by (rule handleBeforeUnload_loaded [OF assms cv pd])
  }
  {
    assume "originalUrl rp \<noteq> []"
    then show "refinedHandleEdit st now v =
                 Inr (withRecord st videoId (rp\<lparr>lastKnownSystemTime := of_int now\<rparr>),
                      ToHomeWithUrl (JStr (originalUrl rp)))"
      by (rule refinedHandleEdit_loaded [OF assms cv pd])
  }
next
  assume "items st videoId = None \<and> getYouTubeIdFromUrl url = Inr videoId"
  then show "handleSaveUrl st now url =
              Inr (withRecord st videoId
                     \<lparr>originalUrl = url, lastKnownVideoTime = 0, lastKnownSystemTime = of_int now\<rparr>,
                   Some (ToVideo videoId))"
    using handleSaveUrl_new [OF _ assms] by simp
next
  assume s: "items st videoId = Some (JsonText (videoDataObj rs))"
  show "handleBackToVideo st now (Some videoId) =
          Inr (withRecord st videoId (rs\<lparr>lastKnownSystemTime := of_int now\<rparr>), ToVideo videoId)"
    by (rule handleBackToVideo_existing [OF assms s])
  {
    assume "getYouTubeIdFromUrl url = Inr videoId"
    then show "handleSaveUrl st now url =
                 Inr (withRecord st videoId (rs\<lparr>originalUrl := url, lastKnownSystemTime := of_int now\<rparr>),
                      Some (ToVideo videoId))"
      using handleSaveUrl_existing [OF _ assms s] by simp
  }
qed

text \<open>
  The witness is taken after two periodic reports, where the state holds the time 46
  and the storage the time 45: the edit button writes 46, the back button 45.
\<close>

theorem writes_of_the_time_fields_witness:
  "runEvents [(20000, 20001, TimeUpdate 45), (21000, 21001, TimeUpdate 46)]
       (examplePage, exampleStorage) = Inr (laterPage, laterStorage)
   \<and> storedProp laterStorage exampleId ''lastKnownVideoTime'' = Some (JNum 45)
   \<and> handleTimeUpdate laterStorage 30000 47 laterPage =
       Inr (laterPage\<lparr>currentTime := 47,
              playerData := videoDataObj (exampleRecord\<lparr>lastKnownVideoTime := 47, lastKnownSystemTime := 30000\<rparr>)\<rparr>,
            withRecord laterStorage exampleId
              (exampleRecord\<lparr>lastKnownVideoTime := 47, lastKnownSystemTime := 30000\<rparr>))
   \<and> handlePlayerStateChange laterStorage 30000 False 47 laterPage =
       Inr (laterPage\<lparr>playerData :=
              videoDataObj (exampleRecord\<lparr>lastKnownVideoTime := 47, lastKnownSystemTime := 30000\<rparr>)\<rparr>,
            withRecord laterStorage exampleId
              (exampleRecord\<lparr>lastKnownVideoTime := 47, lastKnownSystemTime := 30000\<rparr>))
   \<and> handleBeforeUnload laterStorage 30000 laterPage =
       Inr (withRecord laterStorage exampleId
              (exampleRecord\<lparr>lastKnownVideoTime := 46, lastKnownSystemTime := 30000\<rparr>))
   \<and> refinedHandleEdit laterStorage 30000 laterPage =
       Inr (withRecord laterStorage exampleId
              (exampleRecord\<lparr>lastKnownVideoTime := 46, lastKnownSystemTime := 30000\<rparr>),
            ToHomeWithUrl (JStr ''https://youtu.be/dQw4w9WgXcQ''))
   \<and> handleBackToVideo laterStorage 30000 (Some exampleId) =
       Inr (withRecord laterStorage exampleId
              (exampleRecord\<lparr>lastKnownVideoTime := 45, lastKnownSystemTime := 30000\<rparr>),
            ToVideo exampleId)
   \<and> handleSaveUrl laterStorage 30000 ''https://www.youtube.com/watch?v=dQw4w9WgXcQ'' =
       Inr (withRecord laterStorage exampleId
              \<lparr>originalUrl = ''https://www.youtube.com/watch?v=dQw4w9WgXcQ'',
               lastKnownVideoTime = 45, lastKnownSystemTime = 30000\<rparr>,
            Some (ToVideo exampleId))
   \<and> handleSaveUrl emptyStorage 30000 ''https://youtu.be/dQw4w9WgXcQ'' =
       Inr (withRecord emptyStorage exampleId
              \<lparr>originalUrl = ''https://youtu.be/dQw4w9WgXcQ'', lastKnownVideoTime = 0,
               lastKnownSystemTime = 30000\<rparr>,
            Some (ToVideo exampleId))"
proof -
  have a: "getYouTubeIdFromUrl ''https://youtu.be/dQw4w9WgXcQ'' = Inr exampleId"
    "getYouTubeIdFromUrl ''https://www.youtube.com/watch?v=dQw4w9WgXcQ'' = Inr exampleId"
    by code_simp+
  have u: "originalUrl (exampleRecord\<lparr>lastKnownVideoTime := 46, lastKnownSystemTime := 21000\<rparr>)
             = ''https://youtu.be/dQw4w9WgXcQ''"
    by (simp add: exampleRecord_def)
  have stored: "storedProp laterStorage exampleId ''lastKnownVideoTime'' = Some (JNum 45)"
    by (simp add: storedProp_def later_facts(4))
  from writes_of_the_time_fields
         [OF example_facts(1) later_facts(1),
          where v = laterPage
            and rp = "exampleRecord\<lparr>lastKnownVideoTime := 46, lastKnownSystemTime := 21000\<rparr>"
            and rs = "exampleRecord\<lparr>lastKnownVideoTime := 45, lastKnownSystemTime := 21001\<rparr>"
            and now = 30000 and t = 47 and isPlaying = False
            and url = "''https://www.youtube.com/watch?v=dQw4w9WgXcQ''"]
    writes_of_the_time_fields
         [OF example_facts(1) example_facts(2),
          where now = 30000 and url = "''https://youtu.be/dQw4w9WgXcQ''"]
    later_facts a u stored two_reports example_facts(6)
  show ?thesis by (simp add: exampleRecord_def)
qed

subsection \<open>C6: loading what is missing or damaged\<close>

text \<open>
  Claim C6 as stated fails. A stored record whose time fields were overwritten by hand
  is still well-formed JSON: \<open>getVideoData\<close> returns it as parsed, not \<open>null\<close>.
\<close>

theorem damaged_record_is_returned:
  "getVideoData damagedStorage exampleId = Inr damagedRecord \<and> damagedRecord \<noteq> JNull"
  by (simp add: getVideoData_def getItem_def damagedStorage_def emptyStorage_def exampleId_def
        damagedRecord_def)

text \<open>
  Claim C6, amended. \<open>getVideoData\<close> never throws. It returns \<open>null\<close> when nothing is
  stored under the identifier, when the stored text is malformed JSON, and when access
  to the storage is denied. A text stored under a non-empty identifier that is
  well-formed JSON is returned as parsed when access is allowed, whether or not it is a
  record.
\<close>

theorem getVideoData_absent_or_malformed:
  "(\<exists>v. getVideoData st videoId = Inr v)
   \<and> (items st videoId = None \<longrightarrow> getVideoData st videoId = Inr JNull)
   \<and> (items st videoId = Some (Malformed s) \<longrightarrow> getVideoData st videoId = Inr JNull)
   \<and> (accessDenied st \<longrightarrow> getVideoData st videoId = Inr JNull)
   \<and> (videoId \<noteq> [] \<and> \<not> accessDenied st \<and> items st videoId = Some (JsonText v) \<longrightarrow>
        getVideoData st videoId = Inr v)"
  using getVideoData_total [of st videoId]
  by (simp add: getVideoData_def getItem_def)

theorem getVideoData_absent_or_malformed_witness:
  "getVideoData emptyStorage exampleId = Inr JNull
   \<and> getVideoData (emptyStorage\<lparr>items := [exampleId \<mapsto> Malformed ''{originalUrl:'']\<rparr>) exampleId
       = Inr JNull"
  using getVideoData_absent_or_malformed [of emptyStorage exampleId]
    getVideoData_absent_or_malformed
      [of "emptyStorage\<lparr>items := [exampleId \<mapsto> Malformed ''{originalUrl:'']\<rparr>" exampleId
          "''{originalUrl:''"]
  by (simp add: emptyStorage_def)

subsection \<open>C7: what a submission writes\<close>

text \<open>
  Claim C7. On a submission whose URL gives a non-empty identifier, with the storage
  available: if nothing is stored under the identifier, a record with
  \<open>lastKnownVideoTime = 0\<close> and \<open>lastKnownSystemTime = now\<close> is created; if a record is
  stored, it is replaced under the same key by the record with the submitted
  \<open>originalUrl\<close> and \<open>lastKnownSystemTime = now\<close>, its \<open>lastKnownVideoTime\<close> unchanged. No
  other key of the storage changes.
\<close>

theorem submission_creates_or_updates:
  assumes "getYouTubeIdFromUrl url = Inr videoId" and "videoId \<noteq> []" and "available st"
  shows "(items st videoId = None \<longrightarrow>
            handleSaveUrl st now url =
              Inr (withRecord st videoId
                     \<lparr>originalUrl = url, lastKnownVideoTime = 0, lastKnownSystemTime = of_int now\<rparr>,
                   Some (ToVideo videoId)))
       \<and> (items st videoId = Some (JsonText (videoDataObj r)) \<longrightarrow>
            handleSaveUrl st now url =
              Inr (withRecord st videoId (r\<lparr>originalUrl := url, lastKnownSystemTime := of_int now\<rparr>),
                   Some (ToVideo videoId))
            \<and> lastKnownVideoTime (r\<lparr>originalUrl := url, lastKnownSystemTime := of_int now\<rparr>)
                = lastKnownVideoTime r)
       \<and> (\<forall>st' nav k. handleSaveUrl st now url = Inr (st', nav) \<and> k \<noteq> videoId \<longrightarrow>
            items st' k = items st k)"
proof (intro conjI impI allI)
  assume "items st videoId = None"
  with assms show "handleSaveUrl st now url =
              Inr (withRecord st videoId
                     \<lparr>originalUrl = url, lastKnownVideoTime = 0, lastKnownSystemTime = of_int now\<rparr>,
                   Some (ToVideo videoId))"
    by (rule handleSaveUrl_new)
next
  assume "items st videoId = Some (JsonText (videoDataObj r))"
  with assms show "handleSaveUrl st now url =
              Inr (withRecord st videoId (r\<lparr>originalUrl := url, lastKnownSystemTime := of_int now\<rparr>),
                   Some (ToVideo videoId))"
    by (rule handleSaveUrl_existing)
next
  show "lastKnownVideoTime (r\<lparr>originalUrl := url, lastKnownSystemTime := of_int now\<rparr>)
          = lastKnownVideoTime r"
    by simp
next
  fix st' nav k
  assume "handleSaveUrl st now url = Inr (st', nav) \<and> k \<noteq> videoId"
  with assms(1) show "items st' k = items st k"
    by (auto dest: handleSaveUrl_other_keys)
qed

theorem submission_creates_or_updates_witness:
  "handleSaveUrl emptyStorage 10000 ''https://youtu.be/dQw4w9WgXcQ'' =
     Inr (withRecord emptyStorage exampleId
            \<lparr>originalUrl = ''https://youtu.be/dQw4w9WgXcQ'', lastKnownVideoTime = 0,
             lastKnownSystemTime = 10000\<rparr>, Some (ToVideo exampleId))
   \<and> handleSaveUrl exampleStorage 70000 ''https://www.youtube.com/watch?v=dQw4w9WgXcQ'' =
       Inr (withRecord exampleStorage exampleId
              \<lparr>originalUrl = ''https://www.youtube.com/watch?v=dQw4w9WgXcQ'',
               lastKnownVideoTime = 100, lastKnownSystemTime = 70000\<rparr>, Some (ToVideo exampleId))"
proof -
  have a: "getYouTubeIdFromUrl ''https://youtu.be/dQw4w9WgXcQ'' = Inr exampleId"
    "getYouTubeIdFromUrl ''https://www.youtube.com/watch?v=dQw4w9WgXcQ'' = Inr exampleId"
    by code_simp+
  from submission_creates_or_updates
         [OF a(1) example_facts(1) example_facts(2), where now = 10000]
    submission_creates_or_updates
         [OF a(2) example_facts(1) example_facts(3), where r = exampleRecord and now = 70000]
    example_facts(5) example_facts(6)
  show ?thesis by (simp add: exampleRecord_def)
qed

subsection \<open>C8: the save at teardown\<close>




subsection \<open>C9: the form's validation and the extractor\<close>

text \<open>
  Claim C9 as stated fails. The form accepts a URL whose identifier is followed by
  one more character; the extractor finds a token of 12 characters and returns the
  empty string, and \<open>handleSaveUrl\<close> takes its early return: nothing is stored and there
  is no navigation.
\<close>

theorem form_accepts_what_extractor_rejects:
  "handleSubmit ''https://youtu.be/dQw4w9WgXcQX'' = Inr ''https://youtu.be/dQw4w9WgXcQX''
   \<and> getYouTubeIdFromUrl ''https://youtu.be/dQw4w9WgXcQX'' = Inr []
   \<and> handleSaveUrl emptyStorage 10000 ''https://youtu.be/dQw4w9WgXcQX'' = Inr (emptyStorage, None)"
proof -
  have a: "handleSubmit ''https://youtu.be/dQw4w9WgXcQX'' = Inr ''https://youtu.be/dQw4w9WgXcQX''"
    by code_simp
  have b: "getYouTubeIdFromUrl ''https://youtu.be/dQw4w9WgXcQX'' = Inr []"
    by code_simp
  from a b show ?thesis by (simp add: handleSaveUrl_def)
qed

text \<open>
  Claim C9, amended. A URL that the form accepts is a prefix of \<open>formPrefixes\<close>, then 11
  identifier characters, then the rest. When the rest is empty or begins with \<open>#\<close>, \<open>&\<close>
  or \<open>?\<close>, and no marker begins in the identifier or after it, \<open>getYouTubeIdFromUrl\<close>
  returns that identifier, which is not empty. For other accepted URLs the extraction
  can fail.
\<close>

theorem accepted_url_extraction:
  assumes "handleSubmit url = Inr url"
    and "url = pre @ ident @ rest" and "pre \<in> set formPrefixes" and "length ident = 11"
    and "rest = [] \<or> \<not> tokenChar (hd rest)" and "markerFree (ident @ rest)"
  shows "getYouTubeIdFromUrl url = Inr ident \<and> ident \<noteq> []"
proof -
  from form_extraction [OF assms(1)] obtain pre' ident' rest' where
    d: "url = pre' @ ident' @ rest'" "pre' \<in> set formPrefixes" "isVideoId ident'"
    by blast
  from assms(2) d(1) have eq: "pre @ ident @ rest = pre' @ ident' @ rest'" by simp
  with assms(3) d(2) have p: "pre = pre'" by (rule formPrefixes_unique)
  with eq assms(4) d(3) have "ident = ident'" by (simp add: isVideoId_def)
  with d(3) have vid: "isVideoId ident" by simp
  from assms(6) have "lastMarkerToken (ident @ rest) = None" by (rule lastMarkerToken_markerFree)
  from lastMarkerToken_formPrefix [OF assms(3) this] takeWhile_token_ident [OF vid assms(5)]
  have "lastMarkerToken url = Some ident" by (simp add: assms(2))
  with assms(4) show ?thesis by (auto simp add: getYouTubeIdFromUrl_lastMarkerToken)
qed

theorem accepted_url_extraction_witness:
  "handleSubmit ''https://www.youtube.com/watch?v=dQw4w9WgXcQ&t=42s''
     = Inr ''https://www.youtube.com/watch?v=dQw4w9WgXcQ&t=42s''
   \<and> markerFree ''dQw4w9WgXcQ&t=42s''
   \<and> getYouTubeIdFromUrl ''https://www.youtube.com/watch?v=dQw4w9WgXcQ&t=42s'' = Inr ''dQw4w9WgXcQ''"
proof -
  have a: "handleSubmit ''https://www.youtube.com/watch?v=dQw4w9WgXcQ&t=42s''
     = Inr ''https://www.youtube.com/watch?v=dQw4w9WgXcQ&t=42s''"
    by code_simp
  have b: "''https://www.youtube.com/watch?v=dQw4w9WgXcQ&t=42s''
             = ''https://www.youtube.com/watch?v='' @ ''dQw4w9WgXcQ'' @ ''&t=42s''"
    by simp
  have c: "''https://www.youtube.com/watch?v='' \<in> set formPrefixes"
    by code_simp
  have d: "length ''dQw4w9WgXcQ'' = 11" by simp
  have e: "''&t=42s'' = [] \<or> \<not> tokenChar (hd ''&t=42s'')" by code_simp
  have f: "markerFree (''dQw4w9WgXcQ'' @ ''&t=42s'')" by code_simp
  from accepted_url_extraction [OF a b c d e f] a f show ?thesis by simp
qed

subsection \<open>C10: no teardown save without a positive time\<close>

text \<open>
  Claim C10. The save at teardown is performed only when the state \<open>currentTime\<close> is
  strictly greater than zero: with \<open>currentTime \<le> 0\<close> the handler leaves the storage as
  it is. In particular, from a page whose \<open>currentTime\<close> is 0, after any callbacks of
  the player among which no periodic report has a positive time, each followed by the
  commit of its render, leaving the page leaves the storage unchanged.
\<close>

theorem teardown_save_needs_positive_time:
  "(currentTime v \<le> 0 \<longrightarrow> handleBeforeUnload st now v = Inr st)
   \<and> (handleBeforeUnload st now v \<noteq> Inr st \<longrightarrow> 0 < currentTime v)
   \<and> (currentTime v = 0 \<and> (\<forall>e\<in>set evs. \<forall>t. snd (snd e) = TimeUpdate t \<longrightarrow> t \<le> 0)
        \<and> runEvents evs (v, st) = Inr (v', st') \<longrightarrow>
          handleBeforeUnload st' now v' = Inr st')"
proof (intro conjI impI)
  assume "currentTime v \<le> 0"
  then show "handleBeforeUnload st now v = Inr st" by (rule handleBeforeUnload_not_positive)
next
  assume "handleBeforeUnload st now v \<noteq> Inr st"
  then show "0 < currentTime v"
    using handleBeforeUnload_not_positive [of v st now] by (meson not_le_imp_less)
next
  assume a: "currentTime v = 0 \<and> (\<forall>e\<in>set evs. \<forall>t. snd (snd e) = TimeUpdate t \<longrightarrow> t \<le> 0)
        \<and> runEvents evs (v, st) = Inr (v', st')"
  then have "case lastTimeUpdate evs of None \<Rightarrow> True | Some t \<Rightarrow> t \<le> 0"
    using lastTimeUpdate_not_positive by blast
  moreover from a have
    "currentTime v' = (case lastTimeUpdate evs of None \<Rightarrow> currentTime v | Some t \<Rightarrow> t)"
    using runEvents_currentTime by blast
  ultimately have "currentTime v' \<le> 0" using a by (simp split: option.splits)
  then show "handleBeforeUnload st' now v' = Inr st'" by (rule handleBeforeUnload_not_positive)
qed

theorem teardown_save_needs_positive_time_witness:
  "currentTime examplePage = 0
   \<and> runEvents [(20000, 20001, PlayerStateChange True 12.5)] (examplePage, exampleStorage) =
       Inr (examplePage\<lparr>playerData :=
              videoDataObj (exampleRecord\<lparr>lastKnownVideoTime := 12.5, lastKnownSystemTime := 20000\<rparr>)\<rparr>,
            withRecord exampleStorage exampleId
              (exampleRecord\<lparr>lastKnownVideoTime := 12.5, lastKnownSystemTime := 20000\<rparr>))
   \<and> handleBeforeUnload
         (withRecord exampleStorage exampleId
            (exampleRecord\<lparr>lastKnownVideoTime := 12.5, lastKnownSystemTime := 20000\<rparr>))
         22000
         (examplePage\<lparr>playerData :=
              videoDataObj (exampleRecord\<lparr>lastKnownVideoTime := 12.5, lastKnownSystemTime := 20000\<rparr>)\<rparr>)
       = Inr (withRecord exampleStorage exampleId
                (exampleRecord\<lparr>lastKnownVideoTime := 12.5, lastKnownSystemTime := 20000\<rparr>))"
proof -
  have z: "currentTime examplePage = 0" by (simp add: examplePage_def)
  have run: "runEvents [(20000, 20001, PlayerStateChange True 12.5)] (examplePage, exampleStorage) =
       Inr (examplePage\<lparr>playerData :=
              videoDataObj (exampleRecord\<lparr>lastKnownVideoTime := 12.5, lastKnownSystemTime := 20000\<rparr>)\<rparr>,
            withRecord exampleStorage exampleId
              (exampleRecord\<lparr>lastKnownVideoTime := 12.5, lastKnownSystemTime := 20000\<rparr>))"
    using example_facts z
    by (simp del: dispatch.simps add: dispatch_state_change_loaded [where videoId = exampleId and r = exampleRecord])
  have ev: "\<forall>e\<in>set [(20000 :: int, 20001 :: int, PlayerStateChange True 12.5)].
              \<forall>t. snd (snd e) = TimeUpdate t \<longrightarrow> t \<le> 0"
    by simp
  from teardown_save_needs_positive_time
         [of examplePage exampleStorage 22000 "[(20000, 20001, PlayerStateChange True 12.5)]"] z run ev
  show ?thesis by simp
qed

end
